theory Spec2Isabelle
  imports Main "HOL-Library.AList"
begin

section \<open>Strings\<close>

text \<open>
  JavaScript strings are modelled as \<open>string\<close>. Only the operations the router uses are
  defined: \<open>split\<close> and \<open>join\<close> on a one-character separator, \<open>startsWith\<close> and
  \<open>includes\<close> for a one-character needle, and \<open>slice(1)\<close>.
\<close>

text \<open>\<open>s.split(c)\<close>: the pieces between the separators; never empty (\<open>"".split("/")\<close> is \<open>[""]\<close>).\<close>

fun split_on :: "char \<Rightarrow> string \<Rightarrow> string list" where
  "split_on c [] = [[]]"
| "split_on c (x # xs) =
     (if x = c then [] # split_on c xs
      else (x # hd (split_on c xs)) # tl (split_on c xs))"

text \<open>\<open>xs.join(c)\<close>.\<close>

fun join_with :: "char \<Rightarrow> string list \<Rightarrow> string" where
  "join_with c [] = []"
| "join_with c [x] = x"
| "join_with c (x # y # ys) = x @ c # join_with c (y # ys)"

definition startsWith :: "string \<Rightarrow> char \<Rightarrow> bool" where
  "startsWith s c = (case s of [] \<Rightarrow> False | x # _ \<Rightarrow> x = c)"

definition includes_char :: "string \<Rightarrow> char \<Rightarrow> bool" where
  "includes_char s c = (c \<in> set s)"

definition slice1 :: "string \<Rightarrow> string" where
  "slice1 s = drop 1 s"

section \<open>HTTP methods\<close>

text \<open>
  \<open>HTTP_METHODS\<close> is an object literal with six own properties holding the flags
  \<open>0b000001 .. 0b100000\<close>. \<open>MethodValue\<close> is the type of these six numbers.
\<close>

datatype MethodValue = GET | POST | PUT | DELETE | PATCH | OPTIONS

fun flag :: "MethodValue \<Rightarrow> nat" where
  "flag GET = 1"
| "flag POST = 2"
| "flag PUT = 4"
| "flag DELETE = 8"
| "flag PATCH = 16"
| "flag OPTIONS = 32"

definition HTTP_METHODS :: "(string \<times> MethodValue) list" where
  "HTTP_METHODS =
     [(''GET'', GET), (''POST'', POST), (''PUT'', PUT),
      (''DELETE'', DELETE), (''PATCH'', PATCH), (''OPTIONS'', OPTIONS)]"

text \<open>
  The object literal inherits from \<open>Object.prototype\<close>, so the property read
  \<open>HTTP_METHODS[name]\<close> also finds the members of \<open>Object.prototype\<close>. Each is listed
  with the text a template literal renders it as (the engine's function source text).
\<close>

definition Object_prototype :: "(string \<times> string) list" where
  "Object_prototype =
     [(''constructor'', ''function Object() { [native code] }''),
      (''__defineGetter__'', ''function __defineGetter__() { [native code] }''),
      (''__defineSetter__'', ''function __defineSetter__() { [native code] }''),
      (''hasOwnProperty'', ''function hasOwnProperty() { [native code] }''),
      (''__lookupGetter__'', ''function __lookupGetter__() { [native code] }''),
      (''__lookupSetter__'', ''function __lookupSetter__() { [native code] }''),
      (''isPrototypeOf'', ''function isPrototypeOf() { [native code] }''),
      (''propertyIsEnumerable'', ''function propertyIsEnumerable() { [native code] }''),
      (''toString'', ''function toString() { [native code] }''),
      (''valueOf'', ''function valueOf() { [native code] }''),
      (''__proto__'', ''[object Object]''),
      (''toLocaleString'', ''function toLocaleString() { [native code] }'')]"

text \<open>
  The value the variable \<open>method\<close> holds at run time: one of the six flags, or a member
  inherited from \<open>Object.prototype\<close> (kept as its rendered text).
\<close>

datatype method_key = Flag MethodValue | Inherited string

text \<open>\<open>HTTP_METHODS[name]\<close>; \<open>None\<close> is \<open>undefined\<close>.\<close>

definition HTTP_METHODS_get :: "string \<Rightarrow> method_key option" where
  "HTTP_METHODS_get name =
     (case map_of HTTP_METHODS name of
        Some v \<Rightarrow> Some (Flag v)
      | None \<Rightarrow> map_option Inherited (map_of Object_prototype name))"

text \<open>The template literal \<open>`${method}`\<close>: a flag is rendered in decimal.\<close>

fun render :: "method_key \<Rightarrow> string" where
  "render (Flag GET) = ''1''"
| "render (Flag POST) = ''2''"
| "render (Flag PUT) = ''4''"
| "render (Flag DELETE) = ''8''"
| "render (Flag PATCH) = ''16''"
| "render (Flag OPTIONS) = ''32''"
| "render (Inherited s) = s"

section \<open>Requests, responses, values and exceptions\<close>

text \<open>The fields of the platform's \<open>Request\<close> that the router reads.\<close>

record Request =
  url :: string
  methodName :: string

text \<open>
  JSON-like values a handler may return. \<open>JBigInt\<close> stands for the values
  \<open>JSON.stringify\<close> refuses with a \<open>TypeError\<close>.
\<close>

datatype json =
    JNull
  | JBool bool
  | JNumber int
  | JString string
  | JArray "json list"
  | JObject "(string \<times> json) list"
  | JBigInt int

fun serializable :: "json \<Rightarrow> bool" where
  "serializable JNull = True"
| "serializable (JBool b) = True"
| "serializable (JNumber n) = True"
| "serializable (JString s) = True"
| "serializable (JArray xs) = list_all serializable xs"
| "serializable (JObject kvs) = list_all (\<lambda>kv. serializable (snd kv)) kvs"
| "serializable (JBigInt n) = False"

text \<open>
  A response body as passed to the \<open>Response\<close> constructor: a plain string, or the
  string \<open>JSON.stringify\<close> returns for a value (kept as the value).
\<close>

datatype BodyInit = Text string | JSON_text json

text \<open>The arguments of \<open>new Response(body, {status, headers})\<close>; the status defaults to 200.\<close>

record Response =
  body :: "BodyInit option"
  status :: nat
  headers :: "(string \<times> string) list"

definition new_Response :: "BodyInit option \<Rightarrow> nat \<Rightarrow> (string \<times> string) list \<Rightarrow> Response" where
  "new_Response b s h = \<lparr>body = b, status = s, headers = h\<rparr>"

text \<open>\<open>new Response()\<close>.\<close>

definition empty_Response :: Response where
  "empty_Response = new_Response None 200 []"

text \<open>What a \<open>throw\<close> carries: an \<open>Error\<close> instance with its message, or any other value.\<close>

datatype thrown = Error_instance string | Thrown_value json

text \<open>\<open>JSON.stringify(v)\<close>.\<close>

definition JSON_stringify :: "json \<Rightarrow> thrown + BodyInit" where
  "JSON_stringify v =
     (if serializable v then Inr (JSON_text v)
      else Inl (Error_instance ''Do not know how to serialize a BigInt''))"

text \<open>What a handler returns.\<close>

datatype js_value = VResponse Response | VUndefined | VString string | VOther json

section \<open>Context, handlers and middleware\<close>

type_synonym Params = "string \<rightharpoonup> string"

record 'e Context =
  params :: Params
  req :: Request
  env :: 'e
  res :: Response

text \<open>
  A handler reads the context and returns a value or throws; the first component is the
  response slot \<open>ctx.res\<close> as the handler leaves it.
\<close>

type_synonym 'e Handler = "'e Context \<Rightarrow> Response \<times> (thrown + js_value)"

text \<open>
  A middleware is a function \<open>(ctx, next) => Promise<void>\<close>. Its body is modelled as a
  tree of the actions it can take on the router's side: return, throw, assign
  \<open>ctx.res\<close>, branch on the current context, and \<open>await next()\<close> with a continuation for
  the normal return and one for an exception thrown out of \<open>next()\<close> (\<open>Throw\<close> itself when
  the middleware has no \<open>try\<close> around the call). Every call of \<open>next\<close> is awaited, as the
  source awaits each middleware; a middleware that starts \<open>next()\<close> and returns without
  awaiting it is not described by this type. The value a middleware returns is dropped
  by the source and is not modelled.
\<close>

datatype 'e Middleware =
    Return
  | Throw thrown
  | SetRes Response "'e Middleware"
  | ReadCtx "'e Context \<Rightarrow> 'e Middleware"
  | AwaitNext "'e Middleware" "thrown \<Rightarrow> 'e Middleware"

text \<open>\<open>handler\<close> is \<open>None\<close> when \<open>use(path)\<close> was called without a function.\<close>

record 'e MiddlewareNode =
  handler :: "'e Middleware option"
  path :: string

section \<open>The route trie\<close>

text \<open>
  \<open>RouteNode\<close>: every field is optional in the source; a \<open>Map\<close> is an association list in
  insertion order.
\<close>

datatype 'h RouteNode =
  RouteNode
    (handlers: "(method_key \<times> 'h) list option")
    (static: "(string \<times> 'h RouteNode) list option")
    (param: "'h RouteNode option")
    (paramName: "string option")
    (wildcard: "'h RouteNode option")

text \<open>The empty object \<open>{}\<close>.\<close>

definition empty_node :: "'h RouteNode" where
  "empty_node = RouteNode None None None None None"

text \<open>\<open>m?.get(k)\<close> and \<open>(m ??= new Map()).set(k, v)\<close> on an optional \<open>Map\<close>.\<close>

definition opt_get :: "('k \<times> 'v) list option \<Rightarrow> 'k \<Rightarrow> 'v option" where
  "opt_get m k = (case m of None \<Rightarrow> None | Some al \<Rightarrow> map_of al k)"

definition opt_set :: "('k \<times> 'v) list option \<Rightarrow> 'k \<Rightarrow> 'v \<Rightarrow> ('k \<times> 'v) list option" where
  "opt_set m k v = (case m of None \<Rightarrow> Some [(k, v)] | Some al \<Rightarrow> Some (AList.update k v al))"

text \<open>\<open>x ?? {}\<close> for an optional child.\<close>

definition or_empty :: "'h RouteNode option \<Rightarrow> 'h RouteNode" where
  "or_empty n = (case n of None \<Rightarrow> empty_node | Some c \<Rightarrow> c)"

text \<open>
  The loop of \<open>#add\<close> over \<open>parts[1..]\<close>, followed by the store into the terminal node's
  \<open>handlers\<close>. The source walks a cursor and mutates in place; here each step rebuilds the
  node with the updated child.
\<close>

fun insert_route :: "'h RouteNode \<Rightarrow> string list \<Rightarrow> method_key \<Rightarrow> 'h \<Rightarrow> 'h RouteNode" where
  "insert_route (RouteNode hs st pa pn wc) [] m h =
     RouteNode (opt_set hs m h) st pa pn wc"
| "insert_route (RouteNode hs st pa pn wc) (part # rest) m h =
     (if startsWith part CHR '':'' then
        RouteNode hs st (Some (insert_route (or_empty pa) rest m h)) (Some (slice1 part)) wc
      else if part = ''*'' then
        RouteNode hs st pa pn (Some (insert_route (or_empty wc) rest m h))
      else
        RouteNode hs
          (opt_set st part (insert_route (or_empty (opt_get st part)) rest m h))
          pa pn wc)"

text \<open>
  \<open>#findHandler(node, parts, index, params, method)\<close>. The list argument is
  \<open>parts\<close> from \<open>index\<close> on, so \<open>[]\<close> is \<open>index === parts.length\<close>. \<open>params\<close> is mutated by
  the source, so it is returned with the handler.
\<close>

fun findHandler ::
  "'h RouteNode \<Rightarrow> string list \<Rightarrow> Params \<Rightarrow> method_key \<Rightarrow> 'h option \<times> Params" where
  "findHandler node [] ps m = (opt_get (handlers node) m, ps)"
| "findHandler node (part # rest) ps m =
     (let r1 = (case opt_get (static node) part of
                  None \<Rightarrow> (None, ps)
                | Some staticHandler \<Rightarrow> findHandler staticHandler rest ps m)
      in case fst r1 of
           Some h \<Rightarrow> r1
         | None \<Rightarrow>
             (let name = (case paramName node of None \<Rightarrow> ''undefined'' | Some n \<Rightarrow> n);
                  r2 = (case param node of
                          None \<Rightarrow> (None, snd r1)
                        | Some p \<Rightarrow>
                            (let r = findHandler p rest ((snd r1)(name \<mapsto> part)) m
                             in case fst r of
                                  Some h \<Rightarrow> r
                                | None \<Rightarrow> (None, (snd r)(name := None))))
              in case fst r2 of
                   Some h \<Rightarrow> r2
                 | None \<Rightarrow>
                     (case wildcard node of
                        None \<Rightarrow> (None, snd r2)
                      | Some w \<Rightarrow> (opt_get (handlers w) m, snd r2))))"

section \<open>The router\<close>

text \<open>
  The platform's \<open>URL\<close> class is not part of the router, so its two behaviours the
  router depends on are parameters: \<open>parse u\<close> is \<open>new URL(u).pathname\<close> (\<open>None\<close> when
  the constructor throws), and \<open>assign s\<close> is what \<open>urlObj.pathname\<close> reads after
  \<open>urlObj.pathname = s\<close>.
\<close>

record URL_class =
  parse :: "string \<Rightarrow> string option"
  assign :: "string \<Rightarrow> string"

record URL =
  pathname :: string

text \<open>\<open>new URL("http://x")\<close>.\<close>

definition fresh_URL :: URL where
  "fresh_URL = \<lparr>pathname = ''/''\<rparr>"

record 'e Zero =
  root :: "'e Handler RouteNode"
  staticRoutes :: "string \<rightharpoonup> 'e Handler"
  middlewareRoutes :: "'e MiddlewareNode list"
  urlPool :: "URL list"

definition initializeUrlPool :: "nat \<Rightarrow> URL list" where
  "initializeUrlPool n = replicate n fresh_URL"

text \<open>\<open>new Zero(poolSize)\<close>.\<close>

definition new_Zero :: "nat \<Rightarrow> 'e Zero" where
  "new_Zero poolSize =
     \<lparr>root = empty_node, staticRoutes = Map.empty, middlewareRoutes = [],
      urlPool = initializeUrlPool poolSize\<rparr>"

text \<open>\<open>#getUrl\<close>: \<open>pop()\<close> takes the last element of the pool; an empty pool gives a new object.\<close>

definition getUrl :: "URL_class \<Rightarrow> 'e Zero \<Rightarrow> string \<Rightarrow> URL \<times> 'e Zero" where
  "getUrl api z u =
     (let urlObj = (if urlPool z = [] then fresh_URL else last (urlPool z));
          z1 = z\<lparr>urlPool := butlast (urlPool z)\<rparr>
      in case parse api u of
           Some fullPath \<Rightarrow> (urlObj\<lparr>pathname := assign api fullPath\<rparr>, z1)
         | None \<Rightarrow> (urlObj\<lparr>pathname := assign api u\<rparr>, z1))"

text \<open>\<open>#add\<close>.\<close>

definition add :: "'e Zero \<Rightarrow> method_key \<Rightarrow> string \<Rightarrow> 'e Handler \<Rightarrow> 'e Zero" where
  "add z m p h =
     (if \<not> includes_char p CHR '':'' \<and> \<not> includes_char p CHR ''*'' then
        z\<lparr>staticRoutes := (staticRoutes z)(render m @ p \<mapsto> h)\<rparr>
      else
        z\<lparr>root := insert_route (root z) (tl (split_on CHR ''/'' p)) m h\<rparr>)"

definition get :: "'e Zero \<Rightarrow> string \<Rightarrow> 'e Handler \<Rightarrow> 'e Zero" where
  "get z p h = add z (Flag GET) p h"

definition post :: "'e Zero \<Rightarrow> string \<Rightarrow> 'e Handler \<Rightarrow> 'e Zero" where
  "post z p h = add z (Flag POST) p h"

definition put :: "'e Zero \<Rightarrow> string \<Rightarrow> 'e Handler \<Rightarrow> 'e Zero" where
  "put z p h = add z (Flag PUT) p h"

definition delete :: "'e Zero \<Rightarrow> string \<Rightarrow> 'e Handler \<Rightarrow> 'e Zero" where
  "delete z p h = add z (Flag DELETE) p h"

text \<open>\<open>use(pathOrMiddleware, handler?)\<close>: \<open>Inl\<close> is the call with a function first.\<close>

definition use ::
  "'e Zero \<Rightarrow> 'e Middleware + string \<Rightarrow> 'e Middleware option \<Rightarrow> 'e Zero" where
  "use z pathOrMiddleware h =
     (let middlewareNode =
            (case pathOrMiddleware of
               Inl f \<Rightarrow> \<lparr>handler = Some f, path = ''*''\<rparr>
             | Inr p \<Rightarrow> \<lparr>handler = h, path = p\<rparr>)
      in z\<lparr>middlewareRoutes := middlewareRoutes z @ [middlewareNode]\<rparr>)"

text \<open>\<open>#matchMiddlewarePath\<close>.\<close>

definition matchMiddlewarePath :: "string \<Rightarrow> string \<Rightarrow> bool" where
  "matchMiddlewarePath middlewarePath requestPath =
     (if middlewarePath = ''*'' then True
      else
        let mParts = split_on CHR ''/'' middlewarePath;
            rParts = split_on CHR ''/'' requestPath
        in if last mParts = ''*'' then
             join_with CHR ''/'' (take (length (butlast mParts)) rParts)
               = join_with CHR ''/'' (butlast mParts)
           else if length mParts \<noteq> length rParts then False
           else list_all (\<lambda>(part, r). startsWith part CHR '':'' \<or> part = r) (zip mParts rParts))"

text \<open>\<open>#formatResponse\<close> and \<open>#handleError\<close>.\<close>

definition formatResponse :: "js_value \<Rightarrow> thrown + Response" where
  "formatResponse result =
     (case result of
        VResponse r \<Rightarrow> Inr r
      | VUndefined \<Rightarrow> Inr empty_Response
      | VString s \<Rightarrow> Inr (new_Response (Some (Text s)) 200 [(''Content-Type'', ''text/plain'')])
      | VOther v \<Rightarrow>
          (case JSON_stringify v of
             Inl e \<Rightarrow> Inl e
           | Inr b \<Rightarrow> Inr (new_Response (Some b) 200 [(''Content-Type'', ''application/json'')])))"

definition handleError :: "thrown \<Rightarrow> Response" where
  "handleError e =
     (let errorMessage = (case e of Error_instance msg \<Rightarrow> msg | Thrown_value v \<Rightarrow> ''Unknown error occurred'')
      in new_Response (Some (JSON_text (JObject [(''error'', JString errorMessage)]))) 500
           [(''Content-Type'', ''application/json'')])"

subsection \<open>The middleware chain\<close>

text \<open>
  The state the closure \<open>next\<close> shares with the middleware: the context, the captured
  \<open>currentIndex\<close>, and a log of what has been invoked (not in the source; it records each
  call of a middleware, by its position among the applicable ones, and of the handler).
\<close>

datatype event = MiddlewareCalled nat | HandlerCalled

record 'e chain =
  ctx :: "'e Context"
  currentIndex :: nat
  trace :: "event list"

text \<open>
  The outcome of a call: the state it leaves and the exception it throws, if any. The outer
  \<open>option\<close> is \<open>None\<close> when the call does not return.
\<close>

type_synonym 'e outcome = "('e chain \<times> thrown option) option"

text \<open>Running a middleware body against a continuation \<open>nxt\<close>.\<close>

primrec run_mw :: "'e Middleware \<Rightarrow> ('e chain \<Rightarrow> 'e outcome) \<Rightarrow> 'e chain \<Rightarrow> 'e outcome" where
  "run_mw Return nxt = (\<lambda>s. Some (s, None))"
| "run_mw (Throw e) nxt = (\<lambda>s. Some (s, Some e))"
| "run_mw (SetRes r k) nxt = (\<lambda>s. run_mw k nxt (s\<lparr>ctx := (ctx s)\<lparr>res := r\<rparr>\<rparr>))"
| "run_mw (ReadCtx f) nxt = (\<lambda>s. run_mw (f (ctx s)) nxt s)"
| "run_mw (AwaitNext k c) nxt =
     (\<lambda>s. case nxt s of
             None \<Rightarrow> None
           | Some (s', None) \<Rightarrow> run_mw k nxt s'
           | Some (s', Some e) \<Rightarrow> run_mw (c e) nxt s')"

text \<open>
  The closure \<open>next\<close> of \<open>#execute\<close>. It calls itself through the middleware it invokes,
  so the definition counts the nested calls down from a bound; \<open>next_call_returns\<close> below
  shows that \<open>length applicableMiddleware + 1\<close> is always enough.
\<close>

primrec next_call ::
  "'e MiddlewareNode list \<Rightarrow> 'e Handler \<Rightarrow> nat \<Rightarrow> 'e chain \<Rightarrow> 'e outcome" where
  "next_call applicableMiddleware h 0 = (\<lambda>s. None)"
| "next_call applicableMiddleware h (Suc n) =
     (\<lambda>s. if currentIndex s < length applicableMiddleware then
             (let middleware = applicableMiddleware ! currentIndex s;
                  s1 = s\<lparr>currentIndex := currentIndex s + 1\<rparr>
              in case handler middleware of
                   None \<Rightarrow> Some (s1, Some (Error_instance ''middleware.handler is not a function''))
                 | Some f \<Rightarrow>
                     run_mw f (next_call applicableMiddleware h n)
                       (s1\<lparr>trace := trace s1 @ [MiddlewareCalled (currentIndex s)]\<rparr>))
           else
             (let (r, result) = h (ctx s);
                  s1 = s\<lparr>ctx := (ctx s)\<lparr>res := r\<rparr>, trace := trace s @ [HandlerCalled]\<rparr>
              in case result of
                   Inl e \<Rightarrow> Some (s1, Some e)
                 | Inr v \<Rightarrow>
                     (case formatResponse v of
                        Inl e \<Rightarrow> Some (s1, Some e)
                      | Inr r' \<Rightarrow> Some (s1\<lparr>ctx := (ctx s1)\<lparr>res := r'\<rparr>\<rparr>, None))))"

text \<open>The body of the \<open>try\<close> in \<open>#execute\<close> up to the end of \<open>await next()\<close>.\<close>

definition applicable :: "'e Zero \<Rightarrow> string \<Rightarrow> 'e MiddlewareNode list" where
  "applicable z p = filter (\<lambda>mw. matchMiddlewarePath (path mw) p) (middlewareRoutes z)"

definition initial_chain :: "Params \<Rightarrow> Request \<Rightarrow> 'e \<Rightarrow> 'e chain" where
  "initial_chain ps rq ev =
     \<lparr>ctx = \<lparr>params = ps, req = rq, env = ev, res = empty_Response\<rparr>,
      currentIndex = 0, trace = []\<rparr>"

definition run_chain ::
  "'e Zero \<Rightarrow> 'e Handler \<Rightarrow> Params \<Rightarrow> Request \<Rightarrow> 'e \<Rightarrow> string \<Rightarrow> 'e outcome" where
  "run_chain z h ps rq ev p =
     (let applicableMiddleware = applicable z p
      in next_call applicableMiddleware h (Suc (length applicableMiddleware))
           (initial_chain ps rq ev))"

text \<open>\<open>#execute\<close>: \<open>return ctx.res\<close>, or \<open>catch (error) { return this.#handleError(error) }\<close>.\<close>

definition execute ::
  "'e Zero \<Rightarrow> 'e Handler \<Rightarrow> Params \<Rightarrow> Request \<Rightarrow> 'e \<Rightarrow> string \<Rightarrow> Response option" where
  "execute z h ps rq ev p =
     (case run_chain z h ps rq ev p of
        None \<Rightarrow> None
      | Some (s, None) \<Rightarrow> Some (res (ctx s))
      | Some (s, Some error) \<Rightarrow> Some (handleError error))"

text \<open>\<open>#processRequest\<close>.\<close>

definition processRequest ::
  "'e Zero \<Rightarrow> Request \<Rightarrow> 'e \<Rightarrow> string \<Rightarrow> method_key \<Rightarrow> Response option" where
  "processRequest z rq ev requestPath m =
     (let staticKey = render m @ requestPath
      in case staticRoutes z staticKey of
           Some staticHandler \<Rightarrow> execute z staticHandler Map.empty rq ev requestPath
         | None \<Rightarrow>
             (let parts = split_on CHR ''/'' requestPath;
                  found = findHandler (root z) (tl parts) Map.empty m
              in case fst found of
                   None \<Rightarrow> Some (new_Response (Some (Text ''Not Found'')) 404 [])
                 | Some h \<Rightarrow> execute z h (snd found) rq ev requestPath))"

text \<open>\<open>HTTP_METHODS[req.method as HttpMethod] ?? HTTP_METHODS.GET\<close>.\<close>

definition request_method :: "Request \<Rightarrow> method_key" where
  "request_method rq =
     (case HTTP_METHODS_get (methodName rq) of None \<Rightarrow> Flag GET | Some v \<Rightarrow> v)"

text \<open>
  \<open>handle\<close>: when the awaited \<open>#processRequest\<close> completes, the \<open>finally\<close> pushes the URL
  object back and the response is returned; a request that never completes (\<open>None\<close>) keeps
  its object. The result is the response and the router with its pool after the request.
\<close>

definition handle :: "URL_class \<Rightarrow> 'e Zero \<Rightarrow> Request \<Rightarrow> 'e \<Rightarrow> Response option \<times> 'e Zero" where
  "handle api z rq ev =
     (let (urlObj, z1) = getUrl api z (url rq);
          m = request_method rq
      in case processRequest z1 rq ev (pathname urlObj) m of
           None \<Rightarrow> (None, z1)
         | Some response \<Rightarrow> (Some response, z1\<lparr>urlPool := urlPool z1 @ [urlObj]\<rparr>))"

text \<open>
  The handler and parameters \<open>#processRequest\<close> passes to \<open>#execute\<close>: its two lookups,
  the static table first and then the trie, without the call of \<open>#execute\<close>.
\<close>

definition resolve :: "'e Zero \<Rightarrow> method_key \<Rightarrow> string \<Rightarrow> ('e Handler \<times> Params) option" where
  "resolve z m requestPath =
     (case staticRoutes z (render m @ requestPath) of
        Some staticHandler \<Rightarrow> Some (staticHandler, Map.empty)
      | None \<Rightarrow>
          (let found = findHandler (root z) (tl (split_on CHR ''/'' requestPath)) Map.empty m
           in case fst found of
                None \<Rightarrow> None
              | Some h \<Rightarrow> Some (h, snd found)))"

text \<open>
  The handler \<open>#findHandler\<close> returns, computed without the parameters: the same three
  branches in the same order (\<open>fst_findHandler\<close> below shows that it is the first component
  of \<open>findHandler\<close>, whatever the parameters).
\<close>

fun lookup :: "'h RouteNode \<Rightarrow> string list \<Rightarrow> method_key \<Rightarrow> 'h option" where
  "lookup node [] m = opt_get (handlers node) m"
| "lookup node (part # rest) m =
     (case (case opt_get (static node) part of None \<Rightarrow> None | Some c \<Rightarrow> lookup c rest m) of
        Some h \<Rightarrow> Some h
      | None \<Rightarrow>
          (case (case param node of None \<Rightarrow> None | Some p \<Rightarrow> lookup p rest m) of
             Some h \<Rightarrow> Some h
           | None \<Rightarrow> (case wildcard node of None \<Rightarrow> None | Some w \<Rightarrow> opt_get (handlers w) m)))"

text \<open>
  A registered pattern (the segments \<open>#add\<close> walks) against the segments of a request: a
  literal segment must be equal, a \<open>:name\<close> segment takes any segment, and \<open>*\<close> in last
  position takes all that is left (a \<open>*\<close> followed by more segments leaves its handler
  below the wildcard child, where \<open>#findHandler\<close> never looks).
\<close>

fun matches :: "string list \<Rightarrow> string list \<Rightarrow> bool" where
  "matches [] [] = True"
| "matches (p # pat) (r # rs) =
     (if startsWith p CHR '':'' then matches pat rs
      else if p = ''*'' then pat = []
      else p = r \<and> matches pat rs)"
| "matches [] (r # rs) = False"
| "matches (p # pat) [] = False"


text \<open>Requests served one after the other, each completed before the next begins.\<close>

fun serve ::
  "URL_class \<Rightarrow> 'e Zero \<Rightarrow> (Request \<times> 'e) list \<Rightarrow> Response option list \<times> 'e Zero" where
  "serve api z [] = ([], z)"
| "serve api z (r # rs) =
     (let (response, z1) = handle api z (fst r) (snd r);
          (responses, z2) = serve api z1 rs
      in (response # responses, z2))"

text \<open>
  A continuation whose call never returns. A middleware body that returns when run
  against it has returned without invoking its continuation.
\<close>

definition never_returns :: "'e chain \<Rightarrow> 'e outcome" where
  "never_returns s = None"

text \<open>The state in which the first applicable middleware is entered.\<close>

definition first_entry :: "Params \<Rightarrow> Request \<Rightarrow> 'e \<Rightarrow> 'e chain" where
  "first_entry ps rq ev =
     (initial_chain ps rq ev)\<lparr>currentIndex := 1, trace := [MiddlewareCalled 0]\<rparr>"

section \<open>Sample inputs\<close>

text \<open>
  A \<open>URL\<close> class for the examples: \<open>http://x\<close> followed by a path parses to that path,
  any other string makes the constructor throw, and the \<open>pathname\<close> setter stores the
  string as it is.
\<close>

definition sample_URL :: URL_class where
  "sample_URL =
     \<lparr>parse = (\<lambda>u. if take 8 u = ''http://x'' then Some (drop 8 u) else None),
      assign = (\<lambda>s. s)\<rparr>"

definition request :: "string \<Rightarrow> string \<Rightarrow> Request" where
  "request name u = \<lparr>url = u, methodName = name\<rparr>"

text \<open>Handlers that return a string, return a JSON value, echo a parameter, and throw.\<close>

definition returns_text :: "string \<Rightarrow> unit Handler" where
  "returns_text s = (\<lambda>c. (res c, Inr (VString s)))"

definition returns_json :: "json \<Rightarrow> unit Handler" where
  "returns_json v = (\<lambda>c. (res c, Inr (VOther v)))"

definition echoes_param :: "string \<Rightarrow> unit Handler" where
  "echoes_param name =
     (\<lambda>c. (res c, Inr (case params c name of None \<Rightarrow> VUndefined | Some v \<Rightarrow> VString v)))"

definition throws_error :: "string \<Rightarrow> unit Handler" where
  "throws_error msg = (\<lambda>c. (res c, Inl (Error_instance msg)))"

definition text_response :: "string \<Rightarrow> Response" where
  "text_response s = new_Response (Some (Text s)) 200 [(''Content-Type'', ''text/plain'')]"

definition not_found :: Response where
  "not_found = new_Response (Some (Text ''Not Found'')) 404 []"

text \<open>Routers for the examples.\<close>

definition health_handler :: "unit Handler" where
  "health_handler = returns_json (JObject [(''status'', JString ''healthy'')])"



definition stopping :: "unit Middleware" where
  "stopping = SetRes (text_response ''stop'') Return"

definition passing :: "unit Middleware" where
  "passing = AwaitNext Return Throw"


definition gate_router :: "unit Zero" where
  "gate_router =
     use (use (get (new_Zero 1) ''/secret'' (returns_text ''secret'')) (Inl stopping) None)
       (Inl passing) None"

definition health_router :: "unit Zero" where
  "health_router = get (new_Zero 1) ''/health'' health_handler"

definition mixed_router :: "unit Zero" where
  "mixed_router = get (get (new_Zero 1) ''/boom'' (throws_error ''boom'')) ''/health'' health_handler"

definition users_router :: "unit Zero" where
  "users_router =
     get (get (new_Zero 1) ''/users/:id'' (echoes_param ''id'')) ''/users/static-name''
       (returns_text ''static'')"

text \<open>
  The node under \<open>a\<close> after \<open>/a/:x/b\<close> and \<open>/a/*\<close> are registered for GET: a parametric
  child that only continues with \<open>b\<close>, and a wildcard child.
\<close>

definition leaf :: "unit Handler \<Rightarrow> unit Handler RouteNode" where
  "leaf h = RouteNode (Some [(Flag GET, h)]) None None None None"

definition only_b :: "unit Handler RouteNode" where
  "only_b = RouteNode None (Some [(''b'', leaf (echoes_param ''x''))]) None None None"

definition dead_end_node :: "unit Handler RouteNode" where
  "dead_end_node =
     RouteNode None None (Some only_b) (Some ''x'') (Some (leaf (returns_text ''rest'')))"

section \<open>Every call of the chain returns\<close>

text \<open>
  A middleware only reaches \<open>next\<close> in states whose \<open>currentIndex\<close> is at least the one it
  was entered with, so a continuation that returns on those states is enough.
\<close>

lemma run_mw_returns:
  assumes nxt: "\<And>s. j \<le> currentIndex s \<Longrightarrow> \<exists>s' e. nxt s = Some (s', e) \<and> j \<le> currentIndex s'"
  shows "j \<le> currentIndex s \<Longrightarrow> \<exists>s' e. run_mw p nxt s = Some (s', e) \<and> j \<le> currentIndex s'"
proof (induction p arbitrary: s)
  case (AwaitNext k c)
  from nxt [OF AwaitNext.prems] obtain s' e where n: "nxt s = Some (s', e)" and j: "j \<le> currentIndex s'"
    by blast
  show ?case
  proof (cases e)
    case None
    with n AwaitNext.IH(1) [OF j] show ?thesis by simp
  next
    case (Some x)
    with n AwaitNext.IH(2) [OF _ j, of "c x"] show ?thesis by simp
  qed
qed simp_all

lemma run_mw_agree:
  assumes nxt: "\<And>s. j \<le> currentIndex s \<Longrightarrow> \<exists>s' e. nxt s = Some (s', e) \<and> j \<le> currentIndex s'"
    and eq: "\<And>s. j \<le> currentIndex s \<Longrightarrow> nxt s = nxt' s"
  shows "j \<le> currentIndex s \<Longrightarrow> run_mw p nxt s = run_mw p nxt' s"
proof (induction p arbitrary: s)
  case (AwaitNext k c)
  from nxt [OF AwaitNext.prems] obtain s' e where n: "nxt s = Some (s', e)" and j: "j \<le> currentIndex s'"
    by blast
  from eq [OF AwaitNext.prems] n have n': "nxt' s = Some (s', e)" by simp
  show ?case
  proof (cases e)
    case None
    with n n' AwaitNext.IH(1) [OF j] show ?thesis by simp
  next
    case (Some x)
    with n n' AwaitNext.IH(2) [OF _ j, of "c x"] show ?thesis by simp
  qed
qed simp_all

lemma next_call_returns:
  "length app - currentIndex s < n \<Longrightarrow>
   \<exists>s' e. next_call app h n s = Some (s', e) \<and> currentIndex s \<le> currentIndex s'"
proof (induction n arbitrary: s)
  case 0
  then show ?case by simp
next
  case (Suc n)
  show ?case
  proof (cases "currentIndex s < length app")
    case True
    show ?thesis
    proof (cases "handler (app ! currentIndex s)")
      case None
      with True show ?thesis by simp
    next
      case (Some f)
      let ?s1 = "s\<lparr>currentIndex := Suc (currentIndex s), trace := trace s @ [MiddlewareCalled (currentIndex s)]\<rparr>"
      have good: "\<exists>s' e. next_call app h n t = Some (s', e) \<and> Suc (currentIndex s) \<le> currentIndex s'"
        if t: "Suc (currentIndex s) \<le> currentIndex t" for t
      proof -
        from t True Suc.prems have "length app - currentIndex t < n" by simp
        from Suc.IH [OF this] t show ?thesis
          by (meson le_trans)
      qed
      have "Suc (currentIndex s) \<le> currentIndex ?s1" by simp
      from run_mw_returns [where nxt = "next_call app h n" and p = f, OF good this]
      obtain s' e where "run_mw f (next_call app h n) ?s1 = Some (s', e)" "Suc (currentIndex s) \<le> currentIndex s'"
        by blast
      with True Some show ?thesis by (simp add: Let_def)
    qed
  next
    case False
    then show ?thesis
      by (auto simp: Let_def split: prod.splits sum.splits)
  qed
qed

lemma next_call_fuel:
  "length app - currentIndex s < n \<Longrightarrow> length app - currentIndex s < n' \<Longrightarrow>
   next_call app h n s = next_call app h n' s"
proof (induction n arbitrary: s n')
  case 0
  then show ?case by simp
next
  case (Suc n)
  from Suc.prems(2) obtain k where n': "n' = Suc k" by (cases n') auto
  show ?case
  proof (cases "currentIndex s < length app")
    case True
    show ?thesis
    proof (cases "handler (app ! currentIndex s)")
      case None
      with True n' show ?thesis by simp
    next
      case (Some f)
      let ?s1 = "s\<lparr>currentIndex := Suc (currentIndex s), trace := trace s @ [MiddlewareCalled (currentIndex s)]\<rparr>"
      have good: "\<exists>s' e. next_call app h n t = Some (s', e) \<and> Suc (currentIndex s) \<le> currentIndex s'"
        if t: "Suc (currentIndex s) \<le> currentIndex t" for t
      proof -
        from t True Suc.prems have "length app - currentIndex t < n" by simp
        from next_call_returns [OF this] t show ?thesis
          by (meson le_trans)
      qed
      have same: "next_call app h n t = next_call app h k t"
        if t: "Suc (currentIndex s) \<le> currentIndex t" for t
      proof -
        from t True Suc.prems n' have "length app - currentIndex t < n" "length app - currentIndex t < k"
          by simp_all
        then show ?thesis by (rule Suc.IH)
      qed
      have "Suc (currentIndex s) \<le> currentIndex ?s1" by simp
      from run_mw_agree [where nxt = "next_call app h n" and nxt' = "next_call app h k" and p = f, OF good same this]
      show ?thesis using True Some n' by (simp add: Let_def)
    qed
  next
    case False
    with n' show ?thesis by simp
  qed
qed

lemma run_chain_returns: "\<exists>s e. run_chain z h ps rq ev p = Some (s, e)"
proof -
  have "length (applicable z p) - currentIndex (initial_chain ps rq ev)
          < Suc (length (applicable z p))"
    by simp
  from next_call_returns [OF this] show ?thesis
    unfolding run_chain_def Let_def by blast
qed

text \<open>The bound in \<open>run_chain\<close> is no restriction: every larger one gives the same outcome.\<close>

lemma run_chain_bound:
  assumes "length (applicable z p) < n"
  shows "next_call (applicable z p) h n (initial_chain ps rq ev) = run_chain z h ps rq ev p"
proof -
  have "length (applicable z p) - currentIndex (initial_chain ps rq ev) < n"
    using assms by simp
  moreover have "length (applicable z p) - currentIndex (initial_chain ps rq ev)
          < Suc (length (applicable z p))"
    by simp
  ultimately show ?thesis
    unfolding run_chain_def Let_def by (rule next_call_fuel)
qed

lemma execute_returns: "\<exists>r. execute z h ps rq ev p = Some r"
  using run_chain_returns [of z h ps rq ev p]
  by (auto simp: execute_def split: option.splits)

lemma processRequest_returns: "\<exists>r. processRequest z rq ev p m = Some r"
  using execute_returns
  by (auto simp: processRequest_def Let_def split: option.splits)

section \<open>The parts of a request\<close>

lemma getUrl_pathname:
  "pathname (fst (getUrl api z u)) = assign api (case parse api u of None \<Rightarrow> u | Some fullPath \<Rightarrow> fullPath)"
  by (simp add: getUrl_def Let_def split: option.splits)

lemma getUrl_router:
  "root (snd (getUrl api z u)) = root z"
  "staticRoutes (snd (getUrl api z u)) = staticRoutes z"
  "middlewareRoutes (snd (getUrl api z u)) = middlewareRoutes z"
  "urlPool (snd (getUrl api z u)) = butlast (urlPool z)"
  by (simp_all add: getUrl_def Let_def split: option.splits)

lemma run_chain_cong:
  "middlewareRoutes z = middlewareRoutes z' \<Longrightarrow> run_chain z h ps rq ev p = run_chain z' h ps rq ev p"
  by (simp add: run_chain_def applicable_def)

lemma execute_cong:
  "middlewareRoutes z = middlewareRoutes z' \<Longrightarrow> execute z h ps rq ev p = execute z' h ps rq ev p"
  by (simp add: execute_def run_chain_cong [of z z'])

lemma processRequest_cong:
  assumes "root z = root z'" and "staticRoutes z = staticRoutes z'"
    and "middlewareRoutes z = middlewareRoutes z'"
  shows "processRequest z rq ev p m = processRequest z' rq ev p m"
proof -
  have e: "execute z = execute z'"
    by (intro ext) (rule execute_cong [OF assms(3)])
  show ?thesis
    unfolding processRequest_def assms(1,2) e by (rule refl)
qed

lemma handle_response:
  "fst (handle api z rq ev) =
     processRequest z rq ev (pathname (fst (getUrl api z (url rq)))) (request_method rq)"
proof -
  have "processRequest (snd (getUrl api z (url rq))) rq ev (pathname (fst (getUrl api z (url rq))))
          (request_method rq) =
        processRequest z rq ev (pathname (fst (getUrl api z (url rq)))) (request_method rq)"
    by (rule processRequest_cong) (simp_all add: getUrl_router)
  then show ?thesis
    by (simp add: handle_def Let_def split_beta split: option.splits)
qed

lemma handle_returns: "\<exists>r. fst (handle api z rq ev) = Some r"
  by (simp add: handle_response processRequest_returns)

lemma handle_pool:
  "urlPool (snd (handle api z rq ev)) = butlast (urlPool z) @ [fst (getUrl api z (url rq))]"
proof -
  from processRequest_returns [of "snd (getUrl api z (url rq))" rq ev
      "pathname (fst (getUrl api z (url rq)))" "request_method rq"]
  obtain r where "processRequest (snd (getUrl api z (url rq))) rq ev
      (pathname (fst (getUrl api z (url rq)))) (request_method rq) = Some r"
    by auto
  then show ?thesis
    by (simp add: handle_def Let_def split_beta getUrl_router)
qed

lemma handle_router:
  "root (snd (handle api z rq ev)) = root z"
  "staticRoutes (snd (handle api z rq ev)) = staticRoutes z"
  "middlewareRoutes (snd (handle api z rq ev)) = middlewareRoutes z"
  by (simp_all add: handle_def Let_def split_beta getUrl_router split: option.splits)


lemma add_middlewareRoutes: "middlewareRoutes (add z m p h) = middlewareRoutes z"
  by (simp add: add_def)

lemma add_urlPool: "urlPool (add z m p h) = urlPool z"
  by (simp add: add_def)



lemma processRequest_resolve:
  "processRequest z rq ev p m =
     (case resolve z m p of
        None \<Rightarrow> Some not_found
      | Some (h, ps) \<Rightarrow> execute z h ps rq ev p)"
  by (simp add: processRequest_def resolve_def not_found_def Let_def split: option.splits)



lemma run_mw_alone:
  "run_mw f never_returns s = Some r \<Longrightarrow> run_mw f nxt s = Some r"
proof (induction f arbitrary: s)
  case (AwaitNext k c)
  then show ?case by (simp add: never_returns_def)
qed simp_all

lemma run_mw_alone_state:
  "run_mw f never_returns s = Some (s', e) \<Longrightarrow>
     currentIndex s' = currentIndex s \<and> trace s' = trace s
     \<and> params (ctx s') = params (ctx s) \<and> req (ctx s') = req (ctx s) \<and> env (ctx s') = env (ctx s)"
proof (induction f arbitrary: s)
  case Return
  then show ?case by simp
next
  case (Throw x)
  then show ?case by simp
next
  case (SetRes r k)
  from SetRes.IH [of "s\<lparr>ctx := (ctx s)\<lparr>res := r\<rparr>\<rparr>"] SetRes.prems show ?case by simp
next
  case (ReadCtx g)
  from ReadCtx.prems have "run_mw (g (ctx s)) never_returns s = Some (s', e)" by simp
  then show ?case by (rule ReadCtx.IH [OF rangeI])
next
  case (AwaitNext k c)
  then show ?case by (simp add: never_returns_def)
qed

lemma first_entry_eq:
  "first_entry ps rq ev =
     (initial_chain ps rq ev)
       \<lparr>currentIndex := currentIndex (initial_chain ps rq ev) + 1,
        trace := trace (initial_chain ps rq ev) @ [MiddlewareCalled (currentIndex (initial_chain ps rq ev))]\<rparr>"
  by (simp add: first_entry_def initial_chain_def)

lemma next_call_middleware:
  "currentIndex s < length app \<Longrightarrow> handler (app ! currentIndex s) = Some f \<Longrightarrow>
   next_call app h (Suc n) s =
     run_mw f (next_call app h n)
       (s\<lparr>currentIndex := currentIndex s + 1, trace := trace s @ [MiddlewareCalled (currentIndex s)]\<rparr>)"
  by (simp add: Let_def)

lemma run_chain_first:
  assumes "applicable z p = m1 # rest" and "handler m1 = Some f"
    and "run_mw f never_returns (first_entry ps rq ev) = Some r"
  shows "run_chain z h ps rq ev p = Some r"
proof -
  let ?app = "applicable z p"
  have idx: "currentIndex (initial_chain ps rq ev) = 0"
    by (simp add: initial_chain_def)
  have "next_call ?app h (Suc (length ?app)) (initial_chain ps rq ev) =
          run_mw f (next_call ?app h (length ?app)) (first_entry ps rq ev)"
    unfolding first_entry_eq
    by (rule next_call_middleware) (simp_all add: idx assms(1,2))
  also have "\<dots> = Some r"
    using assms(3) by (rule run_mw_alone)
  finally show ?thesis
    by (simp only: run_chain_def Let_def)
qed

section \<open>Resolution in the trie\<close>

lemma fst_findHandler: "fst (findHandler n rs ps m) = lookup n rs m"
proof (induction rs arbitrary: n ps)
  case Nil
  show ?case by simp
next
  case (Cons part rest)
  show ?case
    by (simp add: Let_def Cons.IH split: option.split)
qed

lemma opt_get_set_same: "opt_get (opt_set al k v) k = Some v"
  by (simp add: opt_get_def opt_set_def update_conv' split: option.split)

lemma opt_get_set_other: "k' \<noteq> k \<Longrightarrow> opt_get (opt_set al k v) k' = opt_get al k'"
  by (simp add: opt_get_def opt_set_def update_conv' split: option.split)

lemma lookup_empty_node: "lookup empty_node rs m = None"
  by (cases rs) (simp_all add: empty_node_def opt_get_def)

lemma insert_route_Nil:
  "handlers (insert_route n [] m h) = opt_set (handlers n) m h"
  "static (insert_route n [] m h) = static n"
  "param (insert_route n [] m h) = param n"
  "paramName (insert_route n [] m h) = paramName n"
  "wildcard (insert_route n [] m h) = wildcard n"
  by (cases n; simp)+

lemma insert_route_param:
  assumes "startsWith part CHR '':''"
  shows "handlers (insert_route n (part # rest) m h) = handlers n"
    and "static (insert_route n (part # rest) m h) = static n"
    and "param (insert_route n (part # rest) m h) = Some (insert_route (or_empty (param n)) rest m h)"
    and "paramName (insert_route n (part # rest) m h) = Some (slice1 part)"
    and "wildcard (insert_route n (part # rest) m h) = wildcard n"
  using assms by (cases n; simp)+

lemma insert_route_wildcard:
  assumes "\<not> startsWith part CHR '':''" and "part = ''*''"
  shows "handlers (insert_route n (part # rest) m h) = handlers n"
    and "static (insert_route n (part # rest) m h) = static n"
    and "param (insert_route n (part # rest) m h) = param n"
    and "paramName (insert_route n (part # rest) m h) = paramName n"
    and "wildcard (insert_route n (part # rest) m h) = Some (insert_route (or_empty (wildcard n)) rest m h)"
  using assms by (cases n; simp)+

lemma insert_route_literal:
  assumes "\<not> startsWith part CHR '':''" and "part \<noteq> ''*''"
  shows "handlers (insert_route n (part # rest) m h) = handlers n"
    and "static (insert_route n (part # rest) m h) =
           opt_set (static n) part (insert_route (or_empty (opt_get (static n) part)) rest m h)"
    and "param (insert_route n (part # rest) m h) = param n"
    and "paramName (insert_route n (part # rest) m h) = paramName n"
    and "wildcard (insert_route n (part # rest) m h) = wildcard n"
  using assms by (cases n; simp)+

lemma lookup_or_empty:
  "(case c of None \<Rightarrow> None | Some x \<Rightarrow> lookup x rs m) = None \<Longrightarrow> lookup (or_empty c) rs m = None"
  by (cases c) (simp_all add: or_empty_def lookup_empty_node)

lemma lookup_Cons_None:
  assumes "lookup n (part # rest) m = None"
  shows "(case opt_get (static n) part of None \<Rightarrow> None | Some c \<Rightarrow> lookup c rest m) = None"
    and "(case param n of None \<Rightarrow> None | Some p \<Rightarrow> lookup p rest m) = None"
    and "(case wildcard n of None \<Rightarrow> None | Some w \<Rightarrow> opt_get (handlers w) m) = None"
  using assms by (simp_all split: option.splits)

lemma lookup_insert_route:
  "lookup n rs m = None \<Longrightarrow> matches pat rs \<Longrightarrow> lookup (insert_route n pat m h) rs m = Some h"
proof (induction pat arbitrary: n rs)
  case Nil
  then have "rs = []" by (cases rs) simp_all
  then show ?case by (simp add: insert_route_Nil opt_get_set_same)
next
  case (Cons p pat)
  from Cons.prems(2) obtain r rs' where rs: "rs = r # rs'" by (cases rs) simp_all
  note none = lookup_Cons_None [OF Cons.prems(1) [unfolded rs]]
  show ?case
  proof (cases "startsWith p CHR '':''")
    case True
    with Cons.prems(2) rs have "matches pat rs'" by simp
    with lookup_or_empty [OF none(2)]
    have "lookup (insert_route (or_empty (param n)) pat m h) rs' m = Some h"
      by (rule Cons.IH)
    then show ?thesis
      using none(1) by (simp add: rs insert_route_param [OF True])
  next
    case False
    show ?thesis
    proof (cases "p = ''*''")
      case True
      with False Cons.prems(2) rs have "pat = []" by simp
      then show ?thesis
        using none(1,2)
        by (simp add: rs insert_route_wildcard [OF False True] insert_route_Nil opt_get_set_same)
    next
      case lit: False
      with False Cons.prems(2) rs have p: "p = r" and "matches pat rs'" by simp_all
      with lookup_or_empty [OF none(1)] 
      have "lookup (insert_route (or_empty (opt_get (static n) r)) pat m h) rs' m = Some h"
        by (intro Cons.IH) simp_all
      then show ?thesis
        using lit False
        by (simp add: rs p [symmetric] insert_route_literal [OF False lit] opt_get_set_same)
    qed
  qed
qed

lemma snd_findHandler_none:
  "lookup n rs m = None \<Longrightarrow> snd (findHandler n rs ps m) \<subseteq>\<^sub>m ps"
proof (induction rs arbitrary: n ps)
  case Nil
  show ?case by simp
next
  case (Cons part rest)
  note none = lookup_Cons_None [OF Cons.prems]
  define ps1 where "ps1 = (case opt_get (static n) part of None \<Rightarrow> ps | Some c \<Rightarrow> snd (findHandler c rest ps m))"
  define name where "name = (case paramName n of None \<Rightarrow> ''undefined'' | Some x \<Rightarrow> x)"
  define ps2 where "ps2 = (case param n of None \<Rightarrow> ps1
                           | Some p \<Rightarrow> (snd (findHandler p rest (ps1(name \<mapsto> part)) m))(name := None))"
  have 1: "ps1 \<subseteq>\<^sub>m ps"
    using none(1) by (auto simp: ps1_def intro: Cons.IH split: option.splits)
  have 2: "ps2 \<subseteq>\<^sub>m ps1"
  proof (cases "param n")
    case None
    then show ?thesis by (simp add: ps2_def)
  next
    case (Some p)
    with none(2) have "lookup p rest m = None" by simp
    then have "snd (findHandler p rest (ps1(name \<mapsto> part)) m) \<subseteq>\<^sub>m ps1(name \<mapsto> part)"
      by (rule Cons.IH)
    then show ?thesis
      unfolding ps2_def Some map_le_def by (auto split: if_splits)
  qed
  have "snd (findHandler n (part # rest) ps m) = ps2"
    using none
    by (auto simp: Let_def fst_findHandler ps1_def ps2_def name_def split: option.splits)
  with 1 2 show ?case by (auto intro: map_le_trans)
qed

lemma snd_findHandler_none_empty:
  "lookup n rs m = None \<Longrightarrow> snd (findHandler n rs Map.empty m) = Map.empty"
proof -
  assume "lookup n rs m = None"
  then have "snd (findHandler n rs Map.empty m) \<subseteq>\<^sub>m Map.empty"
    by (rule snd_findHandler_none)
  then show ?thesis
    by (intro ext) (force simp: map_le_def dom_def)
qed

lemma findHandler_static:
  "opt_get (static n) part = Some c \<Longrightarrow> lookup c rest m = Some h \<Longrightarrow>
   findHandler n (part # rest) ps m = findHandler c rest ps m"
  by (simp add: Let_def fst_findHandler)

lemma findHandler_param:
  assumes "(case opt_get (static n) part of None \<Rightarrow> None | Some c \<Rightarrow> lookup c rest m) = None"
    and "param n = Some p" and "paramName n = Some x" and "lookup p rest m = Some h"
  shows "findHandler n (part # rest) Map.empty m = findHandler p rest [x \<mapsto> part] m"
proof (cases "opt_get (static n) part")
  case None
  with assms show ?thesis by (simp add: Let_def fst_findHandler)
next
  case (Some c)
  with assms(1) have "lookup c rest m = None" by simp
  with Some assms(2-4) show ?thesis
    by (simp add: Let_def fst_findHandler snd_findHandler_none_empty)
qed

lemma findHandler_wildcard:
  assumes "(case opt_get (static n) part of None \<Rightarrow> None | Some c \<Rightarrow> lookup c rest m) = None"
    and "(case param n of None \<Rightarrow> None | Some p \<Rightarrow> lookup p rest m) = None"
  shows "fst (findHandler n (part # rest) ps m) =
           (case wildcard n of None \<Rightarrow> None | Some w \<Rightarrow> opt_get (handlers w) m)"
    and "snd (findHandler n (part # rest) ps m) \<subseteq>\<^sub>m ps"
    and "param n \<noteq> None \<Longrightarrow>
           snd (findHandler n (part # rest) ps m)
             (case paramName n of None \<Rightarrow> ''undefined'' | Some x \<Rightarrow> x) = None"
proof -
  define ps1 where "ps1 = (case opt_get (static n) part of None \<Rightarrow> ps | Some c \<Rightarrow> snd (findHandler c rest ps m))"
  define name where "name = (case paramName n of None \<Rightarrow> ''undefined'' | Some x \<Rightarrow> x)"
  define ps2 where "ps2 = (case param n of None \<Rightarrow> ps1
                           | Some p \<Rightarrow> (snd (findHandler p rest (ps1(name \<mapsto> part)) m))(name := None))"
  have 1: "ps1 \<subseteq>\<^sub>m ps"
    using assms(1) by (auto simp: ps1_def intro: snd_findHandler_none split: option.splits)
  have 2: "ps2 \<subseteq>\<^sub>m ps1"
  proof (cases "param n")
    case None
    then show ?thesis by (simp add: ps2_def)
  next
    case (Some p)
    with assms(2) have "lookup p rest m = None" by simp
    then have "snd (findHandler p rest (ps1(name \<mapsto> part)) m) \<subseteq>\<^sub>m ps1(name \<mapsto> part)"
      by (rule snd_findHandler_none)
    then show ?thesis
      unfolding ps2_def Some map_le_def by (auto split: if_splits)
  qed
  have r: "findHandler n (part # rest) ps m =
          ((case wildcard n of None \<Rightarrow> None | Some w \<Rightarrow> opt_get (handlers w) m), ps2)"
    using assms
    by (auto simp: Let_def fst_findHandler ps1_def ps2_def name_def split: option.splits)
  show "fst (findHandler n (part # rest) ps m) =
           (case wildcard n of None \<Rightarrow> None | Some w \<Rightarrow> opt_get (handlers w) m)"
    unfolding r by simp
  show "snd (findHandler n (part # rest) ps m) \<subseteq>\<^sub>m ps"
    unfolding r using 1 2 by (auto intro: map_le_trans)
  show "snd (findHandler n (part # rest) ps m)
             (case paramName n of None \<Rightarrow> ''undefined'' | Some x \<Rightarrow> x) = None"
    if "param n \<noteq> None"
    unfolding r using that by (auto simp: ps2_def name_def)
qed

lemma split_on_nonempty: "split_on c s \<noteq> []"
  by (induction s) simp_all

lemma split_on_no_sep: "c \<notin> set s \<Longrightarrow> split_on c s = [s]"
  by (induction s) auto

lemma split_on_append: "c \<notin> set u \<Longrightarrow> split_on c (u @ c # v) = u # split_on c v"
  by (induction u) auto

lemma split_on_join:
  "segs \<noteq> [] \<Longrightarrow> \<forall>s\<in>set segs. c \<notin> set s \<Longrightarrow> split_on c (join_with c segs) = segs"
proof (induction c segs rule: join_with.induct)
  case (3 c x y ys)
  then show ?case by (simp add: split_on_append)
qed (simp_all add: split_on_no_sep)

lemma resolve_None:
  assumes "resolve z m p = None"
  shows "staticRoutes z (render m @ p) = None"
    and "lookup (root z) (tl (split_on CHR ''/'' p)) m = None"
  using assms by (simp_all add: resolve_def Let_def fst_findHandler split: option.splits)

lemma resolve_trie:
  assumes "staticRoutes z (render m @ p) = None"
    and "findHandler (root z) (tl (split_on CHR ''/'' p)) Map.empty m = (Some h, ps)"
  shows "resolve z m p = Some (h, ps)"
  using assms by (simp add: resolve_def Let_def)

lemma findHandler_precedence:
  "fst (findHandler node (part # rest) ps m) =
     (case (case opt_get (static node) part of None \<Rightarrow> None
            | Some c \<Rightarrow> fst (findHandler c rest ps m)) of
        Some h \<Rightarrow> Some h
      | None \<Rightarrow>
          (case (case param node of None \<Rightarrow> None
                 | Some p \<Rightarrow> fst (findHandler p rest ps m)) of
             Some h \<Rightarrow> Some h
           | None \<Rightarrow> (case wildcard node of None \<Rightarrow> None | Some w \<Rightarrow> opt_get (handlers w) m)))"
  unfolding fst_findHandler by simp

lemma users_id_lookup:
  assumes X: "CHR ''/'' \<notin> set X"
    and none: "lookup n [''users'', X] m = None"
  shows "findHandler (insert_route n [''users'', '':id''] m hp) [''users'', X] Map.empty m =
           (Some hp, [''id'' \<mapsto> X])"
proof -
  let ?A = "or_empty (opt_get (static n) ''users'')"
  let ?c = "insert_route ?A ['':id''] m hp"
  let ?P = "insert_route (or_empty (param ?A)) [] m hp"
  have lit: "\<not> startsWith ''users'' CHR '':''" "''users'' \<noteq> ''*''"
    and par: "startsWith '':id'' CHR '':''"
    by (simp_all add: startsWith_def)
  have A: "lookup ?A [X] m = None"
    using lookup_Cons_None(1) [OF none] by (rule lookup_or_empty)
  have c: "opt_get (static (insert_route n [''users'', '':id''] m hp)) ''users'' = Some ?c"
    by (simp add: insert_route_literal [OF lit] opt_get_set_same)
  have "lookup ?c [X] m = Some hp"
    using A by (rule lookup_insert_route) (simp add: startsWith_def)
  with c have 1: "findHandler (insert_route n [''users'', '':id''] m hp) [''users'', X] Map.empty m =
          findHandler ?c [X] Map.empty m"
    by (rule findHandler_static)
  have P: "lookup ?P [] m = Some hp"
    by (simp add: insert_route_Nil opt_get_set_same)
  have 2: "findHandler ?c [X] Map.empty m = findHandler ?P [] [slice1 '':id'' \<mapsto> X] m"
  proof (rule findHandler_param)
    show "(case opt_get (static ?c) X of None \<Rightarrow> None | Some c \<Rightarrow> lookup c [] m) = None"
      using lookup_Cons_None(1) [OF A] by (simp add: insert_route_param [OF par])
    show "param ?c = Some ?P" by (simp add: insert_route_param [OF par])
    show "paramName ?c = Some (slice1 '':id'')" by (simp add: insert_route_param [OF par])
    show "lookup ?P [] m = Some hp" by (rule P)
  qed
  have 3: "findHandler ?P [] [slice1 '':id'' \<mapsto> X] m = (Some hp, [''id'' \<mapsto> X])"
    using P by (simp add: slice1_def)
  from 1 2 3 show ?thesis by simp
qed


lemma lookup_Cons_NoneI:
  assumes "(case opt_get (static n) part of None \<Rightarrow> None | Some c \<Rightarrow> lookup c rest m) = None"
    and "(case param n of None \<Rightarrow> None | Some p \<Rightarrow> lookup p rest m) = None"
    and "(case wildcard n of None \<Rightarrow> None | Some w \<Rightarrow> opt_get (handlers w) m) = None"
  shows "lookup n (part # rest) m = None"
  using assms by simp

lemma lookup_insert_route_other:
  "lookup n rs m = None \<Longrightarrow> m \<noteq> m' \<or> \<not> matches pat rs \<Longrightarrow>
   lookup (insert_route n pat m' h) rs m = None"
proof (induction pat arbitrary: n rs)
  case Nil
  show ?case
  proof (cases rs)
    case Nil
    with Nil.prems show ?thesis
      by (simp add: insert_route_Nil opt_get_set_other)
  next
    case (Cons r rs')
    show ?thesis
      unfolding Cons using lookup_Cons_None [OF Nil.prems(1) [unfolded Cons]]
      by (intro lookup_Cons_NoneI) (simp_all add: insert_route_Nil)
  qed
next
  case (Cons p pat)
  show ?case
  proof (cases rs)
    case Nil
    with Cons.prems(1) show ?thesis
      by (cases "startsWith p CHR '':''"; cases "p = ''*''")
         (simp_all add: insert_route_param insert_route_wildcard insert_route_literal)
  next
    case rs: (Cons r rs')
    note none = lookup_Cons_None [OF Cons.prems(1) [unfolded rs]]
    show ?thesis
    proof (cases "startsWith p CHR '':''")
      case True
      from Cons.prems(2) rs True have "m \<noteq> m' \<or> \<not> matches pat rs'" by simp
      with lookup_or_empty [OF none(2)]
      have "lookup (insert_route (or_empty (param n)) pat m' h) rs' m = None"
        by (rule Cons.IH)
      then show ?thesis
        unfolding rs using none(1,3)
        by (intro lookup_Cons_NoneI) (simp_all add: insert_route_param [OF True])
    next
      case False
      show ?thesis
      proof (cases "p = ''*''")
        case True
        have "opt_get (handlers (insert_route (or_empty (wildcard n)) pat m' h)) m = None"
        proof (cases pat)
          case Nil
          with Cons.prems(2) rs False True have "m \<noteq> m'" by simp
          moreover have "opt_get (handlers (or_empty (wildcard n))) m = None"
            using none(3) by (cases "wildcard n") (simp_all add: or_empty_def empty_node_def opt_get_def)
          ultimately show ?thesis
            by (simp add: Nil insert_route_Nil opt_get_set_other)
        next
          case (Cons q qs)
          have "handlers (insert_route (or_empty (wildcard n)) (q # qs) m' h) = handlers (or_empty (wildcard n))"
            by (cases "startsWith q CHR '':''"; cases "q = ''*''")
               (simp_all add: insert_route_param insert_route_wildcard insert_route_literal)
          moreover have "opt_get (handlers (or_empty (wildcard n))) m = None"
            using none(3) by (cases "wildcard n") (simp_all add: or_empty_def empty_node_def opt_get_def)
          ultimately show ?thesis by (simp add: Cons)
        qed
        then show ?thesis
          unfolding rs using none(1,2)
          by (intro lookup_Cons_NoneI) (simp_all add: insert_route_wildcard [OF False True])
      next
        case lit: False
        show ?thesis
        proof (cases "r = p")
          case True
          with Cons.prems(2) rs False lit have "m \<noteq> m' \<or> \<not> matches pat rs'" by auto
          with lookup_or_empty [OF none(1)]
          have "lookup (insert_route (or_empty (opt_get (static n) r)) pat m' h) rs' m = None"
            by (rule Cons.IH)
          then show ?thesis
            unfolding rs using none(2,3) True
            by (intro lookup_Cons_NoneI)
               (simp_all add: insert_route_literal [OF False lit] opt_get_set_same)
        next
          case ne: False
          then show ?thesis
            unfolding rs using none
            by (intro lookup_Cons_NoneI)
               (simp_all add: insert_route_literal [OF False lit] opt_get_set_other)
        qed
      qed
    qed
  qed
qed

lemma literal_segmentI: "s \<noteq> [] \<Longrightarrow> hd s \<noteq> CHR '':'' \<Longrightarrow> \<not> startsWith s CHR '':''"
  by (cases s) (simp_all add: startsWith_def)

lemma literal_param_literal:
  assumes a: "\<not> startsWith a CHR '':''" "a \<noteq> ''*''"
    and b: "\<not> startsWith b CHR '':''" "b \<noteq> ''*''"
    and none: "lookup n [a, V, b] m = None"
  shows "findHandler (insert_route n [a, CHR '':'' # x, b] m h) [a, V, b] Map.empty m =
           (Some h, [x \<mapsto> V])"
proof -
  let ?px = "CHR '':'' # x"
  let ?A = "or_empty (opt_get (static n) a)"
  let ?c = "insert_route ?A [?px, b] m h"
  let ?Q = "or_empty (param ?A)"
  let ?P = "insert_route ?Q [b] m h"
  let ?B = "insert_route (or_empty (opt_get (static ?Q) b)) [] m h"
  have par: "startsWith ?px CHR '':''" by (simp add: startsWith_def)
  have A: "lookup ?A [V, b] m = None"
    using lookup_Cons_None(1) [OF none] by (rule lookup_or_empty)
  have P0: "lookup ?Q [b] m = None"
    using lookup_Cons_None(2) [OF A] by (rule lookup_or_empty)
  have c: "opt_get (static (insert_route n [a, ?px, b] m h)) a = Some ?c"
    by (simp add: insert_route_literal [OF a] opt_get_set_same)
  have "lookup ?c [V, b] m = Some h"
    using A by (rule lookup_insert_route) (simp add: startsWith_def b)
  with c have 1: "findHandler (insert_route n [a, ?px, b] m h) [a, V, b] Map.empty m =
          findHandler ?c [V, b] Map.empty m"
    by (rule findHandler_static)
  have P: "lookup ?P [b] m = Some h"
    using P0 by (rule lookup_insert_route) (simp add: b)
  have 2: "findHandler ?c [V, b] Map.empty m = findHandler ?P [b] [slice1 ?px \<mapsto> V] m"
  proof (rule findHandler_param)
    show "(case opt_get (static ?c) V of None \<Rightarrow> None | Some c \<Rightarrow> lookup c [b] m) = None"
      using lookup_Cons_None(1) [OF A] by (simp add: insert_route_param [OF par])
    show "param ?c = Some ?P" by (simp add: insert_route_param [OF par])
    show "paramName ?c = Some (slice1 ?px)" by (simp add: insert_route_param [OF par])
    show "lookup ?P [b] m = Some h" by (rule P)
  qed
  have B: "opt_get (static ?P) b = Some ?B"
    by (simp add: insert_route_literal [OF b] opt_get_set_same)
  have Bh: "lookup ?B [] m = Some h"
    by (simp add: insert_route_Nil opt_get_set_same)
  have 3: "findHandler ?P [b] [slice1 ?px \<mapsto> V] m = findHandler ?B [] [slice1 ?px \<mapsto> V] m"
    using B Bh by (rule findHandler_static)
  have 4: "findHandler ?B [] [slice1 ?px \<mapsto> V] m = (Some h, [x \<mapsto> V])"
    using Bh by (simp add: slice1_def)
  from 1 2 3 4 show ?thesis by simp
qed

lemma literal_wildcard:
  assumes a: "\<not> startsWith a CHR '':''" "a \<noteq> ''*''"
    and none: "lookup n (a # r # rs) m = None"
  shows "findHandler (insert_route n [a, ''*''] m h) (a # r # rs) Map.empty m = (Some h, Map.empty)"
proof -
  let ?F = "or_empty (opt_get (static n) a)"
  let ?c = "insert_route ?F [''*''] m h"
  let ?W = "insert_route (or_empty (wildcard ?F)) [] m h"
  have star: "\<not> startsWith ''*'' CHR '':''" "''*'' = ''*''"
    by (simp_all add: startsWith_def)
  have F: "lookup ?F (r # rs) m = None"
    using lookup_Cons_None(1) [OF none] by (rule lookup_or_empty)
  have c: "opt_get (static (insert_route n [a, ''*''] m h)) a = Some ?c"
    by (simp add: insert_route_literal [OF a] opt_get_set_same)
  have "lookup ?c (r # rs) m = Some h"
    using F by (rule lookup_insert_route) (simp add: startsWith_def)
  with c have 1: "findHandler (insert_route n [a, ''*''] m h) (a # r # rs) Map.empty m =
          findHandler ?c (r # rs) Map.empty m"
    by (rule findHandler_static)
  have s: "(case opt_get (static ?c) r of None \<Rightarrow> None | Some c \<Rightarrow> lookup c rs m) = None"
    using lookup_Cons_None(1) [OF F] by (simp add: insert_route_wildcard [OF star])
  have p: "(case param ?c of None \<Rightarrow> None | Some p \<Rightarrow> lookup p rs m) = None"
    using lookup_Cons_None(2) [OF F] by (simp add: insert_route_wildcard [OF star])
  have "fst (findHandler ?c (r # rs) Map.empty m) = Some h"
    unfolding findHandler_wildcard(1) [OF s p]
    by (simp add: insert_route_wildcard [OF star] insert_route_Nil opt_get_set_same)
  moreover have "snd (findHandler ?c (r # rs) Map.empty m) = Map.empty"
    using findHandler_wildcard(2) [OF s p, of Map.empty]
    by (intro ext) (force simp: map_le_def dom_def)
  ultimately have "findHandler ?c (r # rs) Map.empty m = (Some h, Map.empty)"
    by (simp only: prod_eq_iff fst_conv snd_conv)
  with 1 show ?thesis by simp
qed

lemma or_empty_Some: "or_empty (Some c) = c"
  by (simp add: or_empty_def)

lemma last_name_lookup:
  assumes none: "lookup n [''a'', V, ''b''] m = None"
  shows "findHandler
           (insert_route (insert_route n [''a'', '':x'', ''b''] m h1) [''a'', '':y'', ''c''] m' h2)
           [''a'', V, ''b''] Map.empty m = (Some h1, [''y'' \<mapsto> V])"
proof -
  let ?n1 = "insert_route n [''a'', '':x'', ''b''] m h1"
  let ?n2 = "insert_route ?n1 [''a'', '':y'', ''c''] m' h2"
  let ?A = "or_empty (opt_get (static n) ''a'')"
  let ?c1 = "insert_route ?A ['':x'', ''b''] m h1"
  let ?c2 = "insert_route ?c1 ['':y'', ''c''] m' h2"
  let ?Q = "or_empty (param ?A)"
  let ?P1 = "insert_route ?Q [''b''] m h1"
  let ?P2 = "insert_route ?P1 [''c''] m' h2"
  let ?B = "insert_route (or_empty (opt_get (static ?Q) ''b'')) [] m h1"
  have a: "\<not> startsWith ''a'' CHR '':''" "''a'' \<noteq> ''*''"
    and b: "\<not> startsWith ''b'' CHR '':''" "''b'' \<noteq> ''*''"
    and c: "\<not> startsWith ''c'' CHR '':''" "''c'' \<noteq> ''*''"
    and x: "startsWith '':x'' CHR '':''" and y: "startsWith '':y'' CHR '':''"
    by (simp_all add: startsWith_def)
  have A: "lookup ?A [V, ''b''] m = None"
    using lookup_Cons_None(1) [OF none] by (rule lookup_or_empty)
  have c1: "opt_get (static ?n1) ''a'' = Some ?c1"
    by (simp add: insert_route_literal [OF a] opt_get_set_same)
  have c2: "opt_get (static ?n2) ''a'' = Some ?c2"
    by (simp add: insert_route_literal [OF a] opt_get_set_same c1 or_empty_Some)
  have P1: "param ?c1 = Some ?P1"
    by (simp add: insert_route_param [OF x])
  have P2: "param ?c2 = Some ?P2"
    by (simp add: insert_route_param [OF y] P1 or_empty_Some)
  have name: "paramName ?c2 = Some ''y''"
    by (simp add: insert_route_param [OF y] slice1_def)
  have st: "static ?c2 = static ?A"
    by (simp add: insert_route_param [OF y] insert_route_param [OF x])
  have B: "opt_get (static ?P2) ''b'' = Some ?B"
    by (simp add: insert_route_literal [OF c] insert_route_literal [OF b]
          opt_get_set_other opt_get_set_same)
  have Bh: "lookup ?B [] m = Some h1"
    by (simp add: insert_route_Nil opt_get_set_same)
  have P2h: "lookup ?P2 [''b''] m = Some h1"
    using B Bh by simp
  have s: "(case opt_get (static ?c2) V of None \<Rightarrow> None | Some c \<Rightarrow> lookup c [''b''] m) = None"
    using lookup_Cons_None(1) [OF A] by (simp add: st)
  have c2h: "lookup ?c2 [V, ''b''] m = Some h1"
    using s P2 P2h by simp
  have 1: "findHandler ?n2 [''a'', V, ''b''] Map.empty m = findHandler ?c2 [V, ''b''] Map.empty m"
    using c2 c2h by (rule findHandler_static)
  have 2: "findHandler ?c2 [V, ''b''] Map.empty m = findHandler ?P2 [''b''] [''y'' \<mapsto> V] m"
    using s P2 name P2h by (rule findHandler_param)
  have 3: "findHandler ?P2 [''b''] [''y'' \<mapsto> V] m = findHandler ?B [] [''y'' \<mapsto> V] m"
    using B Bh by (rule findHandler_static)
  have 4: "findHandler ?B [] [''y'' \<mapsto> V] m = (Some h1, [''y'' \<mapsto> V])"
    using Bh by simp
  from 1 2 3 4 show ?thesis by simp
qed

lemma segments_a_V:
  "CHR ''/'' \<notin> set V \<Longrightarrow> tl (split_on CHR ''/'' (''/a/'' @ V @ ''/b'')) = [''a'', V, ''b'']"
  "CHR ''/'' \<notin> set V \<Longrightarrow> tl (split_on CHR ''/'' (''/a/'' @ V @ ''/c'')) = [''a'', V, ''c'']"
  by (simp_all add: split_on_append)

lemma segments_files:
  "segs \<noteq> [] \<Longrightarrow> \<forall>s\<in>set segs. CHR ''/'' \<notin> set s \<Longrightarrow>
   tl (split_on CHR ''/'' (''/files/'' @ join_with CHR ''/'' segs)) = ''files'' # segs"
  using split_on_nonempty [of "CHR ''/''" "join_with CHR ''/'' segs"]
  by (simp add: split_on_join)

lemma resolve_registered:
  assumes "staticRoutes z' = staticRoutes z" and "resolve z m p = None"
    and "findHandler (root z') (tl (split_on CHR ''/'' p)) Map.empty m = (Some h, ps)"
  shows "resolve z' m p = Some (h, ps)"
  using resolve_None(1) [OF assms(2)] assms(1,3) by (intro resolve_trie) simp_all

lemma processRequest_resolved:
  assumes "resolve z' m p = Some (h, ps)" and "middlewareRoutes z' = middlewareRoutes z"
  shows "processRequest z' rq ev p m = execute z h ps rq ev p"
proof -
  have "execute z' = execute z"
    by (intro ext) (rule execute_cong [OF assms(2)])
  then show ?thesis
    by (simp only: processRequest_resolve assms(1) option.case prod.case)
qed




section \<open>Unfolding the examples\<close>

lemmas sample_defs =
  sample_URL_def request_def returns_text_def returns_json_def echoes_param_def
  throws_error_def text_response_def not_found_def

lemmas router_defs =
  new_Zero_def initializeUrlPool_def fresh_URL_def get_def post_def put_def delete_def
  add_def use_def includes_char_def startsWith_def slice1_def request_method_def
  HTTP_METHODS_get_def HTTP_METHODS_def Object_prototype_def getUrl_def applicable_def
  matchMiddlewarePath_def formatResponse_def JSON_stringify_def handleError_def
  new_Response_def empty_Response_def


lemma handle_pool_length:
  "length (urlPool (snd (handle api z rq ev))) = max 1 (length (urlPool z))"
  by (cases "urlPool z" rule: rev_cases) (simp_all add: handle_pool)

lemma serve_responses:
  "length (fst (serve api z rqs)) = length rqs \<and> list_all (\<lambda>r. r \<noteq> None) (fst (serve api z rqs))"
proof (induction rqs arbitrary: z)
  case Nil
  show ?case by simp
next
  case (Cons r rs)
  from handle_returns [of api z "fst r" "snd r"] obtain resp
    where "fst (handle api z (fst r) (snd r)) = Some resp" by blast
  with Cons.IH [of "snd (handle api z (fst r) (snd r))"] show ?case
    by (simp add: split_beta Let_def)
qed

lemma serve_pool:
  "length (urlPool (snd (serve api z rqs))) =
     (if rqs = [] then length (urlPool z) else max 1 (length (urlPool z)))"
proof (induction rqs arbitrary: z)
  case Nil
  show ?case by simp
next
  case (Cons r rs)
  from Cons.IH [of "snd (handle api z (fst r) (snd r))"] show ?case
    by (simp add: split_beta Let_def handle_pool_length)
qed


lemmas eval_defs =
  handle_def processRequest_def resolve_def execute_def run_chain_def initial_chain_def
  empty_node_def opt_get_def opt_set_def or_empty_def Let_def


section \<open>Static routes\<close>






section \<open>Error containment\<close>



section \<open>Middleware short-circuit\<close>

text \<open>
  C5. When the first applicable middleware returns without calling its continuation,
  the chain ends there: the log holds the call of that middleware only (neither the
  second middleware nor the handler ran), and \<open>#execute\<close>, hence \<open>handle\<close> for a request
  that resolves to the handler, returns the response slot as that middleware left it
  (the empty default response when it assigned none).
\<close>

theorem middleware_short_circuit:
  assumes "applicable z p = m1 # m2 # rest" and "handler m1 = Some f"
    and "run_mw f never_returns (first_entry ps rq ev) = Some (s', None)"
  shows "run_chain z h ps rq ev p = Some (s', None)
       \<and> trace s' = [MiddlewareCalled 0]
       \<and> execute z h ps rq ev p = Some (res (ctx s'))
       \<and> (f = Return \<longrightarrow> execute z h ps rq ev p = Some empty_Response)
       \<and> (resolve z (request_method rq) p = Some (h, ps)
            \<and> pathname (fst (getUrl api z (url rq))) = p \<longrightarrow>
          fst (handle api z rq ev) = Some (res (ctx s')))"
proof -
  have rc: "run_chain z h ps rq ev p = Some (s', None)"
    using assms by (rule run_chain_first)
  have tr: "trace s' = [MiddlewareCalled 0]"
    using run_mw_alone_state [OF assms(3)] by (simp add: first_entry_def)
  have ex: "execute z h ps rq ev p = Some (res (ctx s'))"
    using rc by (simp add: execute_def)
  have ret: "f = Return \<longrightarrow> execute z h ps rq ev p = Some empty_Response"
    using assms(3) ex by (auto simp: first_entry_def initial_chain_def)
  have hd: "resolve z (request_method rq) p = Some (h, ps)
            \<and> pathname (fst (getUrl api z (url rq))) = p \<longrightarrow>
          fst (handle api z rq ev) = Some (res (ctx s'))"
    using ex by (simp add: handle_response processRequest_resolve)
  from rc tr ex ret hd show ?thesis by blast
qed

theorem middleware_short_circuit_witness:
  "applicable gate_router ''/secret'' =
     \<lparr>handler = Some stopping, path = ''*''\<rparr> # \<lparr>handler = Some passing, path = ''*''\<rparr> # []
   \<and> run_mw stopping never_returns (first_entry Map.empty (request ''GET'' ''http://x/secret'') ()) =
       Some ((first_entry Map.empty (request ''GET'' ''http://x/secret'') ())
               \<lparr>ctx := \<lparr>params = Map.empty, req = request ''GET'' ''http://x/secret'', env = (),
                         res = text_response ''stop''\<rparr>\<rparr>, None)
   \<and> resolve gate_router (request_method (request ''GET'' ''http://x/secret'')) ''/secret'' =
       Some (returns_text ''secret'', Map.empty)
   \<and> pathname (fst (getUrl sample_URL gate_router (url (request ''GET'' ''http://x/secret'')))) = ''/secret''
   \<and> fst (handle sample_URL gate_router (request ''GET'' ''http://x/secret'') ()) =
       Some (text_response ''stop'')"
proof -
  let ?rq = "request ''GET'' ''http://x/secret''"
  let ?m1 = "\<lparr>handler = Some stopping, path = ''*''\<rparr> :: unit MiddlewareNode"
  let ?m2 = "\<lparr>handler = Some passing, path = ''*''\<rparr> :: unit MiddlewareNode"
  let ?s = "(first_entry Map.empty ?rq ())
               \<lparr>ctx := \<lparr>params = Map.empty, req = ?rq, env = (), res = text_response ''stop''\<rparr>\<rparr>"
  have 1: "applicable gate_router ''/secret'' = ?m1 # ?m2 # []"
    by (simp add: gate_router_def router_defs)
  have 2: "handler ?m1 = Some stopping" by simp
  have 3: "run_mw stopping never_returns (first_entry Map.empty ?rq ()) = Some (?s, None)"
    by (simp add: stopping_def first_entry_def initial_chain_def)
  have 4: "resolve gate_router (request_method ?rq) ''/secret'' = Some (returns_text ''secret'', Map.empty)"
    by (simp add: resolve_def gate_router_def request_def router_defs)
  have 5: "pathname (fst (getUrl sample_URL gate_router (url ?rq))) = ''/secret''"
    by (simp add: getUrl_pathname sample_URL_def request_def)
  from middleware_short_circuit [OF 1 2 3, where h = "returns_text ''secret''" and api = sample_URL] 4 5
  have "fst (handle sample_URL gate_router ?rq ()) = Some (res (ctx ?s))"
    by blast
  then have 6: "fst (handle sample_URL gate_router ?rq ()) = Some (text_response ''stop'')"
    by simp
  from 1 3 4 5 6 show ?thesis by (intro conjI)
qed

section \<open>Precedence of literal over parametric routes\<close>

text \<open>
  C1. With \<open>/users/:id\<close> and \<open>/users/static-name\<close> registered for the same method, in
  either order, a request to \<open>/users/static-name\<close> resolves to the literal route's handler
  (through the static table, with no parameters), on every router. A request to
  \<open>/users/X\<close>, for any other single segment \<open>X\<close> that the router did not resolve before
  the two registrations, resolves to the parametric route's handler with \<open>id\<close> bound to
  \<open>X\<close>. At every node of the trie \<open>#findHandler\<close> returns the handler found below the
  literal child if there is one, else the one found below the parametric child, else the
  wildcard child's handler.
\<close>

theorem literal_over_parameter:
  assumes "z' = add (add z m ''/users/:id'' hp) m ''/users/static-name'' hl"
  shows "resolve z' m ''/users/static-name'' = Some (hl, Map.empty)
       \<and> processRequest z' rq ev ''/users/static-name'' m = execute z hl Map.empty rq ev ''/users/static-name''
       \<and> add (add z m ''/users/static-name'' hl) m ''/users/:id'' hp = z'
       \<and> (CHR ''/'' \<notin> set X \<and> X \<noteq> ''static-name'' \<and> resolve z m (''/users/'' @ X) = None \<longrightarrow>
            resolve z' m (''/users/'' @ X) = Some (hp, [''id'' \<mapsto> X])
            \<and> fst (findHandler (root z') [''users'', X] Map.empty m) = Some hp
            \<and> processRequest z' rq ev (''/users/'' @ X) m =
                execute z hp [''id'' \<mapsto> X] rq ev (''/users/'' @ X))
       \<and> fst (findHandler node (part # rest) ps m') =
           (case (case opt_get (static node) part of None \<Rightarrow> None
                  | Some c \<Rightarrow> fst (findHandler c rest ps m')) of
              Some h \<Rightarrow> Some h
            | None \<Rightarrow>
                (case (case param node of None \<Rightarrow> None
                       | Some p \<Rightarrow> fst (findHandler p rest ps m')) of
                   Some h \<Rightarrow> Some h
                 | None \<Rightarrow> (case wildcard node of None \<Rightarrow> None | Some w \<Rightarrow> opt_get (handlers w) m')))"
proof -
  have st: "staticRoutes z' = (staticRoutes z)(render m @ ''/users/static-name'' \<mapsto> hl)"
    and rt: "root z' = insert_route (root z) [''users'', '':id''] m hp"
    and mw: "middlewareRoutes z' = middlewareRoutes z"
    by (simp_all add: assms add_def includes_char_def)
  have ex: "execute z' = execute z"
    by (intro ext) (rule execute_cong [OF mw])
  have 1: "resolve z' m ''/users/static-name'' = Some (hl, Map.empty)"
    by (simp add: resolve_def st)
  have 2: "processRequest z' rq ev ''/users/static-name'' m = execute z hl Map.empty rq ev ''/users/static-name''"
    by (simp only: processRequest_resolve 1 ex option.case prod.case)
  have 3: "add (add z m ''/users/static-name'' hl) m ''/users/:id'' hp = z'"
    by (simp add: assms add_def includes_char_def)
  have 4: "CHR ''/'' \<notin> set X \<and> X \<noteq> ''static-name'' \<and> resolve z m (''/users/'' @ X) = None \<longrightarrow>
            resolve z' m (''/users/'' @ X) = Some (hp, [''id'' \<mapsto> X])
            \<and> fst (findHandler (root z') [''users'', X] Map.empty m) = Some hp
            \<and> processRequest z' rq ev (''/users/'' @ X) m =
                execute z hp [''id'' \<mapsto> X] rq ev (''/users/'' @ X)"
  proof (intro impI, elim conjE)
    assume X: "CHR ''/'' \<notin> set X" and ne: "X \<noteq> ''static-name''"
      and none: "resolve z m (''/users/'' @ X) = None"
    have segs: "tl (split_on CHR ''/'' (''/users/'' @ X)) = [''users'', X]"
      using X by (simp add: split_on_no_sep)
    have fh: "findHandler (root z') [''users'', X] Map.empty m = (Some hp, [''id'' \<mapsto> X])"
      unfolding rt using X resolve_None(2) [OF none, unfolded segs]
      by (rule users_id_lookup)
    have "staticRoutes z' (render m @ ''/users/'' @ X) = None"
      using resolve_None(1) [OF none] ne by (simp add: st)
    then have a: "resolve z' m (''/users/'' @ X) = Some (hp, [''id'' \<mapsto> X])"
      by (rule resolve_trie) (simp only: segs fh)
    have b: "fst (findHandler (root z') [''users'', X] Map.empty m) = Some hp"
      by (simp only: fh fst_conv)
    have c: "processRequest z' rq ev (''/users/'' @ X) m = execute z hp [''id'' \<mapsto> X] rq ev (''/users/'' @ X)"
      by (simp only: processRequest_resolve a ex option.case prod.case)
    from a b c
    show "resolve z' m (''/users/'' @ X) = Some (hp, [''id'' \<mapsto> X])
            \<and> fst (findHandler (root z') [''users'', X] Map.empty m) = Some hp
            \<and> processRequest z' rq ev (''/users/'' @ X) m =
                execute z hp [''id'' \<mapsto> X] rq ev (''/users/'' @ X)"
      by (intro conjI)
  qed
  from 1 2 3 4 findHandler_precedence [of node part rest ps m'] show ?thesis
    by (intro conjI)
qed

theorem literal_over_parameter_witness:
  "CHR ''/'' \<notin> set ''bob'' \<and> ''bob'' \<noteq> ''static-name''
   \<and> resolve (new_Zero 1 :: unit Zero) (Flag GET) ''/users/bob'' = None
   \<and> resolve users_router (Flag GET) ''/users/static-name'' = Some (returns_text ''static'', Map.empty)
   \<and> resolve users_router (Flag GET) ''/users/bob'' = Some (echoes_param ''id'', [''id'' \<mapsto> ''bob''])
   \<and> fst (handle sample_URL users_router (request ''GET'' ''http://x/users/static-name'') ()) =
       Some (text_response ''static'')
   \<and> fst (handle sample_URL users_router (request ''GET'' ''http://x/users/bob'') ()) =
       Some (text_response ''bob'')"
proof -
  have 1: "CHR ''/'' \<notin> set ''bob''" and 2: "''bob'' \<noteq> ''static-name''" by simp_all
  have 3: "resolve (new_Zero 1 :: unit Zero) (Flag GET) (''/users/'' @ ''bob'') = None"
    by (simp add: eval_defs router_defs)
  have 4: "users_router =
      add (add (new_Zero 1) (Flag GET) ''/users/:id'' (echoes_param ''id'')) (Flag GET)
        ''/users/static-name'' (returns_text ''static'')"
    by (simp add: users_router_def get_def)
  note t = literal_over_parameter [OF 4, where X = "''bob''"]
  from t [THEN conjunct1]
  have 5: "resolve users_router (Flag GET) ''/users/static-name'' = Some (returns_text ''static'', Map.empty)" .
  from t [THEN conjunct2, THEN conjunct2, THEN conjunct2, THEN conjunct1] 1 2 3
  have "resolve users_router (Flag GET) (''/users/'' @ ''bob'') = Some (echoes_param ''id'', [''id'' \<mapsto> ''bob''])"
    by blast
  then have 6: "resolve users_router (Flag GET) ''/users/bob'' = Some (echoes_param ''id'', [''id'' \<mapsto> ''bob''])"
    by simp
  have 7: "fst (handle sample_URL users_router (request ''GET'' ''http://x/users/static-name'') ()) =
       Some (text_response ''static'')"
    by (simp add: eval_defs router_defs sample_defs users_router_def)
  have 8: "fst (handle sample_URL users_router (request ''GET'' ''http://x/users/bob'') ()) =
       Some (text_response ''bob'')"
    by (simp add: eval_defs router_defs sample_defs users_router_def)
  from 1 2 3 5 6 7 8 show ?thesis by simp
qed


section \<open>Parameter binding\<close>



section \<open>Wildcard routes\<close>

text \<open>
  C3. After \<open>/files/*\<close> is registered on a router that did not resolve the request, a request
  to \<open>/files/\<close> followed by any positive number of segments resolves to the wildcard
  handler, with no parameters. At any node, when neither the literal nor the parametric
  child yields a handler, \<open>#findHandler\<close> returns the wildcard child's handler for the
  method whatever segments are left.
\<close>

theorem wildcard_absorbs_rest:
  assumes "segs \<noteq> []" and "\<forall>s\<in>set segs. CHR ''/'' \<notin> set s"
    and "resolve z m (''/files/'' @ join_with CHR ''/'' segs) = None"
  shows "resolve (add z m ''/files/*'' h) m (''/files/'' @ join_with CHR ''/'' segs) = Some (h, Map.empty)
       \<and> processRequest (add z m ''/files/*'' h) rq ev (''/files/'' @ join_with CHR ''/'' segs) m =
           execute z h Map.empty rq ev (''/files/'' @ join_with CHR ''/'' segs)
       \<and> ((case opt_get (static node) part of None \<Rightarrow> None
             | Some c \<Rightarrow> fst (findHandler c rest ps m')) = None
            \<and> (case param node of None \<Rightarrow> None
                | Some p \<Rightarrow> fst (findHandler p rest ps' m')) = None
            \<and> wildcard node = Some w \<longrightarrow>
          fst (findHandler node (part # rest) ps m') = opt_get (handlers w) m')"
proof -
  let ?z = "add z m ''/files/*'' h"
  let ?p = "''/files/'' @ join_with CHR ''/'' segs"
  have st: "staticRoutes ?z = staticRoutes z"
    and rt: "root ?z = insert_route (root z) [''files'', ''*''] m h"
    and mw: "middlewareRoutes ?z = middlewareRoutes z"
    by (simp_all add: add_def includes_char_def)
  have lit: "\<not> startsWith ''files'' CHR '':''" "''files'' \<noteq> ''*''"
    by (simp_all add: startsWith_def)
  from assms(1) obtain r rs where segs: "segs = r # rs" by (cases segs) simp_all
  note sg = segments_files [OF assms(1,2), unfolded segs]
  have "findHandler (root ?z) (tl (split_on CHR ''/'' ?p)) Map.empty m = (Some h, Map.empty)"
    unfolding rt segs sg
    using lit resolve_None(2) [OF assms(3), unfolded segs sg]
    by (rule literal_wildcard)
  with st assms(3) have 1: "resolve ?z m ?p = Some (h, Map.empty)"
    by (rule resolve_registered)
  from 1 mw have 2: "processRequest ?z rq ev ?p m = execute z h Map.empty rq ev ?p"
    by (rule processRequest_resolved)
  have 3: "(case opt_get (static node) part of None \<Rightarrow> None
             | Some c \<Rightarrow> fst (findHandler c rest ps m')) = None
            \<and> (case param node of None \<Rightarrow> None
                | Some p \<Rightarrow> fst (findHandler p rest ps' m')) = None
            \<and> wildcard node = Some w \<longrightarrow>
          fst (findHandler node (part # rest) ps m') = opt_get (handlers w) m'"
  proof (intro impI, elim conjE)
    assume s: "(case opt_get (static node) part of None \<Rightarrow> None
             | Some c \<Rightarrow> fst (findHandler c rest ps m')) = None"
      and p: "(case param node of None \<Rightarrow> None
                | Some p \<Rightarrow> fst (findHandler p rest ps' m')) = None"
      and w: "wildcard node = Some w"
    from s have s': "(case opt_get (static node) part of None \<Rightarrow> None | Some c \<Rightarrow> lookup c rest m') = None"
      by (simp only: fst_findHandler)
    from p have p': "(case param node of None \<Rightarrow> None | Some p \<Rightarrow> lookup p rest m') = None"
      by (simp only: fst_findHandler)
    show "fst (findHandler node (part # rest) ps m') = opt_get (handlers w) m'"
      unfolding findHandler_wildcard(1) [OF s' p'] by (simp add: w)
  qed
  from 1 2 3 show ?thesis by (intro conjI)
qed


theorem wildcard_absorbs_rest_witness:
  "[''a'', ''b'', ''c''] \<noteq> [] \<and> list_all (\<lambda>s. CHR ''/'' \<notin> set s) [''a'', ''b'', ''c'']
   \<and> resolve (new_Zero 1 :: unit Zero) (Flag GET) ''/files/a/b/c'' = None
   \<and> resolve (add (new_Zero 1) (Flag GET) ''/files/*'' (returns_text ''file'')) (Flag GET) ''/files/a/b/c'' =
       Some (returns_text ''file'', Map.empty)
   \<and> fst (handle sample_URL (get (new_Zero 1) ''/files/*'' (returns_text ''file''))
         (request ''GET'' ''http://x/files/a'') ()) = Some (text_response ''file'')
   \<and> fst (handle sample_URL (get (new_Zero 1) ''/files/*'' (returns_text ''file''))
         (request ''GET'' ''http://x/files/a/b/c'') ()) = Some (text_response ''file'')
   \<and> opt_get (static dead_end_node) ''42'' = None
   \<and> fst (findHandler only_b [''y'', ''z''] Map.empty (Flag GET)) = None
   \<and> wildcard dead_end_node = Some (leaf (returns_text ''rest''))
   \<and> fst (findHandler dead_end_node [''42'', ''y'', ''z''] Map.empty (Flag GET)) = Some (returns_text ''rest'')"
proof -
  have 1: "[''a'', ''b'', ''c''] \<noteq> []" and 2: "\<forall>s\<in>set [''a'', ''b'', ''c'']. CHR ''/'' \<notin> set s"
    by simp_all
  have 3: "resolve (new_Zero 1 :: unit Zero) (Flag GET) (''/files/'' @ join_with CHR ''/'' [''a'', ''b'', ''c'']) = None"
    by (simp add: eval_defs router_defs)
  have 4: "opt_get (static dead_end_node) ''42'' = None"
    and 5: "fst (findHandler only_b [''y'', ''z''] Map.empty (Flag GET)) = None"
    and 6: "wildcard dead_end_node = Some (leaf (returns_text ''rest''))"
    and 7: "param dead_end_node = Some only_b"
    by (simp_all add: eval_defs leaf_def only_b_def dead_end_node_def)
  note t = wildcard_absorbs_rest [OF 1 2 3, where h = "returns_text ''file''" and node = dead_end_node
      and part = "''42''" and rest = "[''y'', ''z'']" and ps = Map.empty and ps' = Map.empty
      and m' = "Flag GET" and w = "leaf (returns_text ''rest'')"]
  from t [THEN conjunct1]
  have 8: "resolve (add (new_Zero 1) (Flag GET) ''/files/*'' (returns_text ''file'')) (Flag GET) ''/files/a/b/c'' =
       Some (returns_text ''file'', Map.empty)"
    by simp
  have 9: "fst (handle sample_URL (get (new_Zero 1) ''/files/*'' (returns_text ''file''))
         (request ''GET'' ''http://x/files/a'') ()) = Some (text_response ''file'')"
    and 10: "fst (handle sample_URL (get (new_Zero 1) ''/files/*'' (returns_text ''file''))
         (request ''GET'' ''http://x/files/a/b/c'') ()) = Some (text_response ''file'')"
    by (simp_all add: eval_defs router_defs sample_defs)
  from t [THEN conjunct2, THEN conjunct2] 4 5 6 7
  have "fst (findHandler dead_end_node [''42'', ''y'', ''z''] Map.empty (Flag GET)) =
          opt_get (handlers (leaf (returns_text ''rest''))) (Flag GET)"
    by (simp del: findHandler.simps)
  then have 11: "fst (findHandler dead_end_node [''42'', ''y'', ''z''] Map.empty (Flag GET)) = Some (returns_text ''rest'')"
    by (simp add: leaf_def opt_get_def)
  from 1 2 3 4 5 6 8 9 10 11 show ?thesis by (simp add: list_all_iff)
qed


section \<open>One parameter name per node\<close>

text \<open>
  C7. A node has one \<open>param\<close> child and one \<open>paramName\<close>; registering a route whose segment
  at that node is \<open>:name\<close> sets \<open>paramName\<close> to \<open>name\<close>, whatever it was. After \<open>/a/:x/b\<close>
  alone a request to \<open>/a/V/b\<close> binds \<open>x\<close>; once \<open>/a/:y/c\<close> is registered too, requests to
  \<open>/a/V/b\<close> and to \<open>/a/V/c\<close> both bind \<open>y\<close> and not \<open>x\<close>.
\<close>

theorem last_parameter_name_wins:
  assumes "CHR ''/'' \<notin> set V"
    and "resolve z m (''/a/'' @ V @ ''/b'') = None"
    and "resolve z m' (''/a/'' @ V @ ''/c'') = None"
    and "z1 = add z m ''/a/:x/b'' h1"
    and "z2 = add z1 m' ''/a/:y/c'' h2"
  shows "resolve z1 m (''/a/'' @ V @ ''/b'') = Some (h1, [''x'' \<mapsto> V])
       \<and> resolve z2 m (''/a/'' @ V @ ''/b'') = Some (h1, [''y'' \<mapsto> V])
       \<and> resolve z2 m' (''/a/'' @ V @ ''/c'') = Some (h2, [''y'' \<mapsto> V])
       \<and> processRequest z2 rq ev (''/a/'' @ V @ ''/b'') m =
           execute z h1 [''y'' \<mapsto> V] rq ev (''/a/'' @ V @ ''/b'')
       \<and> paramName (insert_route node ((CHR '':'' # name) # rest) mm hh) = Some name"
proof -
  let ?pb = "''/a/'' @ V @ ''/b''" and ?pc = "''/a/'' @ V @ ''/c''"
  have st1: "staticRoutes z1 = staticRoutes z"
    and rt1: "root z1 = insert_route (root z) [''a'', '':x'', ''b''] m h1"
    and mw1: "middlewareRoutes z1 = middlewareRoutes z"
    by (simp_all add: assms(4) add_def includes_char_def)
  have st2: "staticRoutes z2 = staticRoutes z"
    and rt2: "root z2 = insert_route (root z1) [''a'', '':y'', ''c''] m' h2"
    and mw2: "middlewareRoutes z2 = middlewareRoutes z"
    by (simp_all add: assms(5) st1 mw1 add_def includes_char_def)
  have lit: "\<not> startsWith ''a'' CHR '':''" "''a'' \<noteq> ''*''"
    and b: "\<not> startsWith ''b'' CHR '':''" "''b'' \<noteq> ''*''"
    and c: "\<not> startsWith ''c'' CHR '':''" "''c'' \<noteq> ''*''"
    by (simp_all add: startsWith_def)
  note sb = segments_a_V(1) [OF assms(1)] and sc = segments_a_V(2) [OF assms(1)]
  note nb = resolve_None(2) [OF assms(2), unfolded sb]
  note nc = resolve_None(2) [OF assms(3), unfolded sc]
  have "findHandler (root z1) (tl (split_on CHR ''/'' ?pb)) Map.empty m = (Some h1, [''x'' \<mapsto> V])"
    unfolding rt1 sb using lit b nb
    by (rule literal_param_literal [where x = "''x''"])
  with st1 assms(2) have 1: "resolve z1 m ?pb = Some (h1, [''x'' \<mapsto> V])"
    by (rule resolve_registered)
  have "findHandler (root z2) (tl (split_on CHR ''/'' ?pb)) Map.empty m = (Some h1, [''y'' \<mapsto> V])"
    unfolding rt2 rt1 sb using nb by (rule last_name_lookup)
  with st2 assms(2) have 2: "resolve z2 m ?pb = Some (h1, [''y'' \<mapsto> V])"
    by (rule resolve_registered)
  have "lookup (root z1) [''a'', V, ''c''] m' = None"
    unfolding rt1 using nc by (rule lookup_insert_route_other) (simp add: startsWith_def)
  with lit c
  have "findHandler (insert_route (root z1) [''a'', CHR '':'' # ''y'', ''c''] m' h2) [''a'', V, ''c''] Map.empty m'
          = (Some h2, [''y'' \<mapsto> V])"
    by (rule literal_param_literal)
  then have "findHandler (root z2) (tl (split_on CHR ''/'' ?pc)) Map.empty m' = (Some h2, [''y'' \<mapsto> V])"
    unfolding rt2 sc by simp
  with st2 assms(3) have 3: "resolve z2 m' ?pc = Some (h2, [''y'' \<mapsto> V])"
    by (rule resolve_registered)
  from 2 mw2 have 4: "processRequest z2 rq ev ?pb m = execute z h1 [''y'' \<mapsto> V] rq ev ?pb"
    by (rule processRequest_resolved)
  have "startsWith (CHR '':'' # name) CHR '':''" by (simp add: startsWith_def)
  then have 5: "paramName (insert_route node ((CHR '':'' # name) # rest) mm hh) = Some name"
    by (simp add: insert_route_param slice1_def)
  from 1 2 3 4 5 show ?thesis by (intro conjI)
qed

theorem last_parameter_name_wins_witness:
  "CHR ''/'' \<notin> set ''7''
   \<and> resolve (new_Zero 1 :: unit Zero) (Flag GET) ''/a/7/b'' = None
   \<and> resolve (new_Zero 1 :: unit Zero) (Flag GET) ''/a/7/c'' = None
   \<and> resolve (get (new_Zero 1) ''/a/:x/b'' (echoes_param ''x'')) (Flag GET) ''/a/7/b'' =
       Some (echoes_param ''x'', [''x'' \<mapsto> ''7''])
   \<and> resolve (get (get (new_Zero 1) ''/a/:x/b'' (echoes_param ''x'')) ''/a/:y/c'' (echoes_param ''y''))
         (Flag GET) ''/a/7/b'' = Some (echoes_param ''x'', [''y'' \<mapsto> ''7''])
   \<and> resolve (get (get (new_Zero 1) ''/a/:x/b'' (echoes_param ''x'')) ''/a/:y/c'' (echoes_param ''y''))
         (Flag GET) ''/a/7/c'' = Some (echoes_param ''y'', [''y'' \<mapsto> ''7''])
   \<and> fst (handle sample_URL (get (new_Zero 1) ''/a/:x/b'' (echoes_param ''x''))
         (request ''GET'' ''http://x/a/7/b'') ()) = Some (text_response ''7'')
   \<and> fst (handle sample_URL
         (get (get (new_Zero 1) ''/a/:x/b'' (echoes_param ''x'')) ''/a/:y/c'' (echoes_param ''y''))
         (request ''GET'' ''http://x/a/7/b'') ()) = Some empty_Response"
proof -
  let ?z = "new_Zero 1 :: unit Zero"
  let ?z1 = "get ?z ''/a/:x/b'' (echoes_param ''x'')"
  let ?z2 = "get ?z1 ''/a/:y/c'' (echoes_param ''y'')"
  have 1: "CHR ''/'' \<notin> set ''7''" by simp
  have 2: "resolve ?z (Flag GET) (''/a/'' @ ''7'' @ ''/b'') = None"
    and 3: "resolve ?z (Flag GET) (''/a/'' @ ''7'' @ ''/c'') = None"
    by (simp_all add: eval_defs router_defs)
  have 4: "?z1 = add ?z (Flag GET) ''/a/:x/b'' (echoes_param ''x'')"
    and 5: "?z2 = add ?z1 (Flag GET) ''/a/:y/c'' (echoes_param ''y'')"
    by (simp_all add: get_def)
  note t = last_parameter_name_wins [OF 1 2 3 4 5]
  from t [THEN conjunct1]
  have 6: "resolve ?z1 (Flag GET) ''/a/7/b'' = Some (echoes_param ''x'', [''x'' \<mapsto> ''7''])"
    by simp
  from t [THEN conjunct2, THEN conjunct1]
  have 7: "resolve ?z2 (Flag GET) ''/a/7/b'' = Some (echoes_param ''x'', [''y'' \<mapsto> ''7''])"
    by simp
  from t [THEN conjunct2, THEN conjunct2, THEN conjunct1]
  have 8: "resolve ?z2 (Flag GET) ''/a/7/c'' = Some (echoes_param ''y'', [''y'' \<mapsto> ''7''])"
    by simp
  have 9: "fst (handle sample_URL ?z1 (request ''GET'' ''http://x/a/7/b'') ()) = Some (text_response ''7'')"
    by (simp add: eval_defs router_defs sample_defs)
  have 10: "fst (handle sample_URL ?z2 (request ''GET'' ''http://x/a/7/b'') ()) = Some empty_Response"
    by (simp add: eval_defs router_defs sample_defs)
  from 1 2 3 6 7 8 9 10 show ?thesis by simp
qed

section \<open>The URL pool\<close>

text \<open>
  C6. \<open>handle\<close> takes one URL object from the pool (a new one when the pool is empty) and
  pushes that object back when the request is over, whatever the response: after a
  request the pool holds what it held before, or one object if it was empty. Requests
  served one after the other all return a response, also from an empty pool, and a pool
  built with size \<open>k\<close> holds \<open>k\<close> objects; taking from an empty pool leaves it empty.
\<close>

theorem pool_balance:
  "urlPool (snd (handle api z rq ev)) = butlast (urlPool z) @ [fst (getUrl api z (url rq))]
   \<and> length (urlPool (snd (handle api z rq ev))) = max 1 (length (urlPool z))
   \<and> (\<exists>r. fst (handle api z rq ev) = Some r)
   \<and> length (urlPool (snd (getUrl api z u))) = length (urlPool z) - 1
   \<and> fst (getUrl api (z\<lparr>urlPool := []\<rparr>) u) =
       fresh_URL\<lparr>pathname := assign api (case parse api u of None \<Rightarrow> u | Some fullPath \<Rightarrow> fullPath)\<rparr>
   \<and> length (fst (serve api z rqs)) = length rqs
   \<and> list_all (\<lambda>r. r \<noteq> None) (fst (serve api z rqs))
   \<and> length (urlPool (snd (serve api z rqs))) =
       (if rqs = [] then length (urlPool z) else max 1 (length (urlPool z)))
   \<and> length (urlPool (new_Zero k :: 'e Zero)) = k"
proof -
  have 4: "length (urlPool (snd (getUrl api z u))) = length (urlPool z) - 1"
    by (simp add: getUrl_router)
  have 5: "fst (getUrl api (z\<lparr>urlPool := []\<rparr>) u) =
       fresh_URL\<lparr>pathname := assign api (case parse api u of None \<Rightarrow> u | Some fullPath \<Rightarrow> fullPath)\<rparr>"
    by (simp add: getUrl_def split: option.splits)
  have 9: "length (urlPool (new_Zero k :: 'e Zero)) = k"
    by (simp add: new_Zero_def initializeUrlPool_def)
  from handle_pool [of api z rq ev] handle_pool_length [of api z rq ev] handle_returns [of api z rq ev]
    4 5 serve_responses [of api z rqs] serve_pool [of api z rqs] 9
  show ?thesis by (intro conjI) blast+
qed


theorem pool_balance_witness:
  "fst (serve sample_URL (mixed_router\<lparr>urlPool := []\<rparr>)
         [(request ''GET'' ''http://x/health'', ()), (request ''GET'' ''http://x/missing'', ()),
          (request ''GET'' ''http://x/boom'', ())]) =
     [Some (new_Response (Some (JSON_text (JObject [(''status'', JString ''healthy'')]))) 200
              [(''Content-Type'', ''application/json'')]),
      Some not_found,
      Some (new_Response (Some (JSON_text (JObject [(''error'', JString ''boom'')]))) 500
              [(''Content-Type'', ''application/json'')])]
   \<and> length (urlPool (snd (serve sample_URL (mixed_router\<lparr>urlPool := []\<rparr>)
         [(request ''GET'' ''http://x/health'', ()), (request ''GET'' ''http://x/missing'', ()),
          (request ''GET'' ''http://x/boom'', ())]))) = 1
   \<and> length (urlPool (snd (handle sample_URL mixed_router (request ''GET'' ''http://x/boom'') ()))) = 1"
proof -
  let ?z = "mixed_router\<lparr>urlPool := []\<rparr>"
  let ?rqs = "[(request ''GET'' ''http://x/health'', ()), (request ''GET'' ''http://x/missing'', ()),
          (request ''GET'' ''http://x/boom'', ())]"
  note t = pool_balance [where api = sample_URL and z = ?z and rqs = ?rqs]
  note t' = pool_balance [where api = sample_URL and z = mixed_router
      and rq = "request ''GET'' ''http://x/boom''" and ev = "()"]
  have 1: "fst (serve sample_URL ?z ?rqs) =
     [Some (new_Response (Some (JSON_text (JObject [(''status'', JString ''healthy'')]))) 200
              [(''Content-Type'', ''application/json'')]),
      Some not_found,
      Some (new_Response (Some (JSON_text (JObject [(''error'', JString ''boom'')]))) 500
              [(''Content-Type'', ''application/json'')])]"
    by (simp add: eval_defs router_defs sample_defs mixed_router_def health_handler_def split_beta)
  from t [THEN conjunct2, THEN conjunct2, THEN conjunct2, THEN conjunct2, THEN conjunct2,
      THEN conjunct2, THEN conjunct2, THEN conjunct1]
  have 2: "length (urlPool (snd (serve sample_URL ?z ?rqs))) = 1"
    by simp
  from t' [THEN conjunct2, THEN conjunct1]
  have 3: "length (urlPool (snd (handle sample_URL mixed_router (request ''GET'' ''http://x/boom'') ()))) = 1"
    by (simp add: mixed_router_def get_def add_urlPool new_Zero_def initializeUrlPool_def)
  from 1 2 3 show ?thesis by (intro conjI)
qed

section \<open>Requests whose URL does not parse\<close>





section \<open>Method names outside the six\<close>

text \<open>
  C10. A method name that is no property at all of \<open>HTTP_METHODS\<close> is dispatched as GET
  (\<open>BREW\<close> below). A name that \<open>Object.prototype\<close> defines, such as \<open>constructor\<close>, is
  found by the property read, so \<open>?? HTTP_METHODS.GET\<close> does not apply: the method is then
  no flag, no registered route has it, and the request for a path that GET serves ends in
  \<open>Not Found\<close>.
\<close>

theorem inherited_method_name_not_found:
  "HTTP_METHODS_get ''constructor'' = Some (Inherited ''function Object() { [native code] }'')
   \<and> request_method (request ''constructor'' ''http://x/health'') =
       Inherited ''function Object() { [native code] }''
   \<and> request_method (request ''BREW'' ''http://x/health'') = Flag GET
   \<and> fst (handle sample_URL health_router (request ''GET'' ''http://x/health'') ()) =
       Some (new_Response (Some (JSON_text (JObject [(''status'', JString ''healthy'')]))) 200
              [(''Content-Type'', ''application/json'')])
   \<and> fst (handle sample_URL health_router (request ''BREW'' ''http://x/health'') ()) =
       Some (new_Response (Some (JSON_text (JObject [(''status'', JString ''healthy'')]))) 200
              [(''Content-Type'', ''application/json'')])
   \<and> fst (handle sample_URL health_router (request ''constructor'' ''http://x/health'') ()) =
       Some not_found"
  by (simp add: eval_defs router_defs sample_defs health_router_def health_handler_def)

end
